theory Spec2Isabelle
  imports Main
begin

section \<open>The JavaScript \<open>Map\<close>\<close>

text \<open>
  The manager keeps its per-folder tables in JavaScript \<open>Map\<close> objects, and two of its
  loops (\<open>stopAll\<close>, \<open>cleanupAllWatchers\<close>) delete from the map they are iterating.
  The model therefore follows ECMAScript's own description of a \<open>Map\<close>: a list of
  entries in insertion order, where \<open>delete\<close> and \<open>clear\<close> empty an entry in place
  (\<open>None\<close> here) and never shorten the list, \<open>set\<close> overwrites the value of a present
  key in place or appends a new entry, and an iterator is an index into the list that
  skips emptied entries and sees entries appended while it is suspended.
\<close>

type_synonym ('k, 'v) jsmap = "('k \<times> 'v) option list"

definition js_empty :: "('k, 'v) jsmap" where
  "js_empty = []"

fun js_get :: "('k, 'v) jsmap \<Rightarrow> 'k \<Rightarrow> 'v option" where
  "js_get [] k = None"
| "js_get (None # es) k = js_get es k"
| "js_get (Some (k', v) # es) k = (if k' = k then Some v else js_get es k)"

definition js_has :: "('k, 'v) jsmap \<Rightarrow> 'k \<Rightarrow> bool" where
  "js_has es k = (js_get es k \<noteq> None)"

fun js_set :: "'k \<Rightarrow> 'v \<Rightarrow> ('k, 'v) jsmap \<Rightarrow> ('k, 'v) jsmap" where
  "js_set k v [] = [Some (k, v)]"
| "js_set k v (None # es) = None # js_set k v es"
| "js_set k v (Some (k', v') # es) =
     (if k' = k then Some (k, v) # es else Some (k', v') # js_set k v es)"

fun js_delete :: "'k \<Rightarrow> ('k, 'v) jsmap \<Rightarrow> ('k, 'v) jsmap" where
  "js_delete k [] = []"
| "js_delete k (None # es) = None # js_delete k es"
| "js_delete k (Some (k', v) # es) =
     (if k' = k then None # es else Some (k', v) # js_delete k es)"

definition js_clear :: "('k, 'v) jsmap \<Rightarrow> ('k, 'v) jsmap" where
  "js_clear es = map (\<lambda>e. None) es"

text \<open>The entries a reader of the map sees, in iteration order, and their number.\<close>

fun js_entries :: "('k, 'v) jsmap \<Rightarrow> ('k \<times> 'v) list" where
  "js_entries [] = []"
| "js_entries (None # es) = js_entries es"
| "js_entries (Some e # es) = e # js_entries es"

definition js_size :: "('k, 'v) jsmap \<Rightarrow> nat" where
  "js_size es = length (js_entries es)"

text \<open>
  One step of a map iterator standing at \<open>index\<close>: the next entry that is not empty,
  and the index after it; \<open>None\<close> when the iterator is exhausted.
\<close>

fun js_scan :: "('k, 'v) jsmap \<Rightarrow> nat \<Rightarrow> (('k \<times> 'v) \<times> nat) option" where
  "js_scan [] index = None"
| "js_scan (None # es) index = js_scan es (Suc index)"
| "js_scan (Some e # es) index = Some (e, Suc index)"

definition js_next :: "('k, 'v) jsmap \<Rightarrow> nat \<Rightarrow> (('k \<times> 'v) \<times> nat) option" where
  "js_next es index = js_scan (drop index es) index"

section \<open>Data of the client manager\<close>

record WorkspaceFolder =
  name :: string
  uri :: string

record TextDocument =
  doc_uri :: string
  languageId :: string

datatype LanguageClient = LanguageClient nat

datatype Disposable = Disposable nat

type_synonym Diagnostic = string

text \<open>
  A diagnostic cache is a \<open>Map\<close> object of its own, shared by reference with whoever
  asked for it. The objects live in a store addressed by reference; \<open>new Map()\<close> takes
  the next unused address.
\<close>

type_synonym cache_ref = nat

type_synonym cache = "(string, Diagnostic list) jsmap"

text \<open>
  Every call the manager makes on a collaborator (the injected options, a language
  client, a watcher handle) is recorded, oldest first.
\<close>

datatype call =
    Log string
  | ShouldEnableForFolder WorkspaceFolder
  | CreateClient WorkspaceFolder
  | OnError string WorkspaceFolder
  | OnStatusUpdate
  | Start LanguageClient
  | Stop LanguageClient
  | SendDidOpen LanguageClient TextDocument
  | Dispose Disposable

record ClientManager =
  clients :: "(string, LanguageClient) jsmap"
  diagnosticCaches :: "(string, cache_ref) jsmap"
  watchers :: "(string, Disposable list) jsmap"
  pendingStarts :: "string set"
  store :: "cache_ref \<Rightarrow> cache"
  next_ref :: cache_ref
  calls :: "call list"

definition new_ClientManager :: ClientManager where
  "new_ClientManager =
     \<lparr>clients = js_empty, diagnosticCaches = js_empty, watchers = js_empty,
      pendingStarts = {}, store = (\<lambda>r. js_empty), next_ref = 0, calls = []\<rparr>"

text \<open>
  What the manager reads from its surroundings without suspending: the
  \<open>supportedLanguage\<close> option and the editor's \<open>workspace\<close> object.
\<close>

record host =
  supportedLanguage :: "string \<Rightarrow> bool"
  getWorkspaceFolder :: "string \<Rightarrow> WorkspaceFolder option"
  textDocuments :: "TextDocument list"

section \<open>Asynchronous operations\<close>

text \<open>
  An \<open>async\<close> method runs synchronously up to an \<open>await\<close> and is resumed later, in
  a step of its own, with the result of the awaited promise; in between, other calls on
  the manager and other resumptions may run. Every \<open>await\<close> suspends, also one on a
  promise that is already settled. The points at which a method of the manager can be
  suspended are named below, each with the local variables the rest of the method still
  needs.

  \<open>startForFolder\<close> awaits its own helper \<open>afterStart\<close>, which awaits its own helper
  \<open>syncOpenDocuments\<close>, which awaits the client's \<open>sendNotification\<close>. A helper is
  called synchronously and runs to its first \<open>await\<close> or to its end before its caller
  reaches the \<open>await\<close> on it. While \<open>syncOpenDocuments\<close> is suspended on a
  notification, both callers are suspended on promises that are not settled yet, and the
  notification's result resumes \<open>syncOpenDocuments\<close> alone (\<open>Start_Sync\<close>). When
  \<open>syncOpenDocuments\<close> has returned or thrown, its promise is settled and \<open>afterStart\<close>
  is resumed in a later step (\<open>Start_AfterSync\<close>); when \<open>afterStart\<close> has returned or
  thrown, its promise is settled and \<open>startForFolder\<close> is resumed in a later step again
  (\<open>Start_AfterStart\<close>). These two points carry the way the awaited promise was settled.

  The sinks \<open>log\<close> and \<open>onStatusUpdate\<close> and the \<open>dispose\<close> of a watcher handle return
  nothing and are taken not to throw; every promise of a collaborator may be rejected.
\<close>

datatype settlement = Fulfilled | Rejected string

datatype pc =
    Start_Enable WorkspaceFolder
  | Start_Create WorkspaceFolder
  | Start_Handshake WorkspaceFolder LanguageClient
  | Start_Sync WorkspaceFolder LanguageClient "TextDocument list"
  | Start_AfterSync WorkspaceFolder settlement
  | Start_AfterStart WorkspaceFolder settlement
  | Start_OnError WorkspaceFolder
  | Stop_Handshake WorkspaceFolder
  | StopAll_Handshake nat string
  | Notify_Send

datatype status = Returned | Threw string | Awaiting pc

text \<open>
  The result of an awaited promise. A thrown value is represented by its rendering as
  a string, which is all the manager uses of it. The enablement check is declared to
  resolve to a boolean and the factory to a client or null; a reply of another type is
  not an answer to that \<open>await\<close> and leaves the method suspended. Where the method
  discards the value, any fulfilment continues it.
\<close>

datatype reply =
    Resolve_void
  | Resolve_bool bool
  | Resolve_client "LanguageClient option"
  | Reject string

text \<open>A name between double quotes, as the messages of the manager show it.\<close>

definition quoted :: "string \<Rightarrow> string" where
  "quoted s = [CHR 0x22] @ s @ [CHR 0x22]"

text \<open>The texts the manager passes to \<open>log\<close> and \<open>onError\<close>.\<close>

definition skipping_message :: "WorkspaceFolder \<Rightarrow> string" where
  "skipping_message folder =
     ''Skipping workspace folder '' @ quoted (name folder)
       @ '' - extension disabled or not applicable''"

definition started_message :: "WorkspaceFolder \<Rightarrow> string" where
  "started_message folder = ''Language server started for '' @ quoted (name folder)"

definition failed_log_message :: "WorkspaceFolder \<Rightarrow> string \<Rightarrow> string" where
  "failed_log_message folder error =
     ''Failed to start language server for '' @ quoted (name folder) @ '': '' @ error"

definition failed_message :: "WorkspaceFolder \<Rightarrow> string" where
  "failed_message folder =
     ''Failed to start Standard Ruby Language Server for '' @ quoted (name folder)"

definition stopping_message :: "WorkspaceFolder \<Rightarrow> string" where
  "stopping_message folder = ''Stopping language server for '' @ quoted (name folder) @ ''...''"

definition emit :: "call \<Rightarrow> ClientManager \<Rightarrow> ClientManager" where
  "emit c m = m\<lparr>calls := calls m @ [c]\<rparr>"

definition getFolderKey :: "WorkspaceFolder \<Rightarrow> string" where
  "getFolderKey folder = uri folder"

definition size_clients :: "ClientManager \<Rightarrow> nat" where
  "size_clients m = js_size (clients m)"

definition getDiagnosticCacheForFolder ::
  "WorkspaceFolder \<Rightarrow> ClientManager \<Rightarrow> cache_ref \<times> ClientManager" where
  "getDiagnosticCacheForFolder folder m =
     (let key = getFolderKey folder in
      case js_get (diagnosticCaches m) key of
        Some cache \<Rightarrow> (cache, m)
      | None \<Rightarrow>
          (let cache = next_ref m in
           (cache, m\<lparr>store := (store m)(cache := js_empty), next_ref := Suc cache,
                      diagnosticCaches := js_set key cache (diagnosticCaches m)\<rparr>)))"

definition registerWatchers ::
  "WorkspaceFolder \<Rightarrow> Disposable list \<Rightarrow> ClientManager \<Rightarrow> ClientManager" where
  "registerWatchers folder watcherDisposables m =
     m\<lparr>watchers := js_set (getFolderKey folder) watcherDisposables (watchers m)\<rparr>"

definition cleanupWatchers :: "string \<Rightarrow> ClientManager \<Rightarrow> ClientManager" where
  "cleanupWatchers key m =
     (case js_get (watchers m) key of
        None \<Rightarrow> m
      | Some watcherList \<Rightarrow>
          m\<lparr>calls := calls m @ map Dispose watcherList,
            watchers := js_delete key (watchers m)\<rparr>)"

text \<open>
  \<open>cleanupAllWatchers\<close> walks the live map with an iterator and deletes the entry it
  has just visited; the walk is synchronous.
\<close>

function cleanupAllWatchers_from :: "nat \<Rightarrow> ClientManager \<Rightarrow> ClientManager" where
  "cleanupAllWatchers_from index m =
     (case js_next (watchers m) index of
        None \<Rightarrow> m
      | Some ((key, watcherList), index') \<Rightarrow>
          cleanupAllWatchers_from index'
            (m\<lparr>calls := calls m @ map Dispose watcherList,
              watchers := js_delete key (watchers m)\<rparr>))"
  by pat_completeness auto
termination
proof (relation "measure (\<lambda>(index, m). length (watchers m) - index)")
  show "wf (measure (\<lambda>(index, m). length (watchers m) - index))"
    by simp
next
  fix index :: nat and m :: ClientManager and x2 x1 index' key watcherList
  assume nxt: "js_next (watchers m) index = Some x2"
    and x2: "(x1, index') = x2" and x1: "(key, watcherList) = x1"
  have scan: "js_scan es i = Some (e, j) \<Longrightarrow> i < j \<and> j \<le> i + length es"
    for es :: "(string, Disposable list) jsmap" and i e j
  proof (induction es arbitrary: i)
    case Nil
    then show ?case by simp
  next
    case (Cons a es)
    then show ?case by (cases a) fastforce+
  qed
  have len: "length (js_delete k es) = length es"
    for es :: "(string, Disposable list) jsmap" and k
    by (induction k es rule: js_delete.induct) simp_all
  from nxt x2 have "js_scan (drop index (watchers m)) index = Some (x1, index')"
    by (simp add: js_next_def)
  from scan [OF this] have "index < index' \<and> index' \<le> index + (length (watchers m) - index)"
    by simp
  then have "index < index' \<and> index' \<le> length (watchers m)"
    by arith
  then show "((index', m\<lparr>calls := calls m @ map Dispose watcherList,
                          watchers := js_delete key (watchers m)\<rparr>), index, m)
             \<in> measure (\<lambda>(index, m). length (watchers m) - index)"
    by (simp add: len) arith
qed

definition cleanupAllWatchers :: "ClientManager \<Rightarrow> ClientManager" where
  "cleanupAllWatchers m = cleanupAllWatchers_from 0 m"

subsection \<open>\<open>startForFolder\<close>\<close>

definition startForFolder :: "WorkspaceFolder \<Rightarrow> ClientManager \<Rightarrow> status \<times> ClientManager" where
  "startForFolder folder m =
     (let key = getFolderKey folder in
      if js_has (clients m) key then (Returned, m)
      else if key \<in> pendingStarts m then (Returned, m)
      else (Awaiting (Start_Enable folder),
            emit (ShouldEnableForFolder folder)
              (m\<lparr>pendingStarts := insert key (pendingStarts m)\<rparr>)))"

text \<open>The \<open>finally\<close> block, and the method's return through it.\<close>

definition startForFolder_finally :: "WorkspaceFolder \<Rightarrow> ClientManager \<Rightarrow> ClientManager" where
  "startForFolder_finally folder m =
     m\<lparr>pendingStarts := pendingStarts m - {getFolderKey folder}\<rparr>"

text \<open>The \<open>catch\<close> block, up to its \<open>await\<close> on \<open>onError\<close>.\<close>

definition startForFolder_catch ::
  "WorkspaceFolder \<Rightarrow> string \<Rightarrow> ClientManager \<Rightarrow> status \<times> ClientManager" where
  "startForFolder_catch folder error m =
     (let key = getFolderKey folder;
          m1 = cleanupWatchers key (m\<lparr>clients := js_delete key (clients m)\<rparr>);
          m2 = emit (Log (failed_log_message folder error)) m1
      in (Awaiting (Start_OnError folder), emit (OnError (failed_message folder) folder) m2))"

text \<open>
  \<open>syncOpenDocuments\<close>, from the documents the loop has still to look at: it runs to
  the next \<open>sendNotification\<close> it awaits (leaving the documents after that one), or to
  the end of the loop.
\<close>

fun syncOpenDocuments ::
  "host \<Rightarrow> LanguageClient \<Rightarrow> WorkspaceFolder \<Rightarrow> TextDocument list \<Rightarrow> ClientManager
     \<Rightarrow> TextDocument list option \<times> ClientManager" where
  "syncOpenDocuments h client folder [] m = (None, m)"
| "syncOpenDocuments h client folder (doc # docs) m =
     (if supportedLanguage h (languageId doc) then
        (case getWorkspaceFolder h (doc_uri doc) of
           None \<Rightarrow> syncOpenDocuments h client folder docs m
         | Some docFolder \<Rightarrow>
             if getFolderKey docFolder = getFolderKey folder
             then (Some docs, emit (SendDidOpen client doc) m)
             else syncOpenDocuments h client folder docs m)
      else syncOpenDocuments h client folder docs m)"

text \<open>
  One synchronous stretch of \<open>syncOpenDocuments\<close>, as the start attempt sees it: the
  loop is suspended on a notification, or it has ended and \<open>syncOpenDocuments\<close> has
  returned, which fulfils the promise \<open>afterStart\<close> awaits (line 228). Nothing of
  \<open>afterStart\<close> or \<open>startForFolder\<close> runs in this stretch.
\<close>

definition syncOpenDocuments_stretch ::
  "host \<Rightarrow> LanguageClient \<Rightarrow> WorkspaceFolder \<Rightarrow> TextDocument list \<Rightarrow> ClientManager
     \<Rightarrow> status \<times> ClientManager" where
  "syncOpenDocuments_stretch h client folder docs m =
     (case syncOpenDocuments h client folder docs m of
        (Some rest, m') \<Rightarrow> (Awaiting (Start_Sync folder client rest), m')
      | (None, m') \<Rightarrow> (Awaiting (Start_AfterSync folder Fulfilled), m'))"

text \<open>
  \<open>afterStart\<close> up to its \<open>await\<close>: it replaces the key's cache and calls
  \<open>syncOpenDocuments\<close>, which runs its first stretch.
\<close>

definition afterStart ::
  "host \<Rightarrow> LanguageClient \<Rightarrow> WorkspaceFolder \<Rightarrow> ClientManager \<Rightarrow> status \<times> ClientManager" where
  "afterStart h client folder m =
     (let cache = next_ref m in
      syncOpenDocuments_stretch h client folder (textDocuments h)
        (m\<lparr>store := (store m)(cache := js_empty), next_ref := Suc cache,
           diagnosticCaches := js_set (getFolderKey folder) cache (diagnosticCaches m)\<rparr>))"

text \<open>
  \<open>afterStart\<close> resumed after its \<open>await\<close> on \<open>syncOpenDocuments\<close>: it calls the status
  callback and returns, or it throws what \<open>syncOpenDocuments\<close> threw. Either way its own
  promise, which \<open>startForFolder\<close> awaits (line 122), is settled.
\<close>

definition after_syncOpenDocuments ::
  "WorkspaceFolder \<Rightarrow> settlement \<Rightarrow> ClientManager \<Rightarrow> status \<times> ClientManager" where
  "after_syncOpenDocuments folder s m =
     (case s of
        Fulfilled \<Rightarrow> (Awaiting (Start_AfterStart folder Fulfilled), emit OnStatusUpdate m)
      | Rejected error \<Rightarrow> (Awaiting (Start_AfterStart folder (Rejected error)), m))"

text \<open>\<open>startForFolder\<close> resumed after its \<open>await\<close>s on its collaborators.\<close>

definition after_shouldEnableForFolder ::
  "WorkspaceFolder \<Rightarrow> reply \<Rightarrow> ClientManager \<Rightarrow> status \<times> ClientManager" where
  "after_shouldEnableForFolder folder r m =
     (case r of
        Resolve_bool enabled \<Rightarrow>
          if \<not> enabled then
            (Returned,
             startForFolder_finally folder
               (emit (Log (skipping_message folder)) m))
          else (Awaiting (Start_Create folder), emit (CreateClient folder) m)
      | Reject error \<Rightarrow> startForFolder_catch folder error m
      | _ \<Rightarrow> (Awaiting (Start_Enable folder), m))"

definition after_createClient ::
  "WorkspaceFolder \<Rightarrow> reply \<Rightarrow> ClientManager \<Rightarrow> status \<times> ClientManager" where
  "after_createClient folder r m =
     (case r of
        Resolve_client None \<Rightarrow> (Returned, startForFolder_finally folder m)
      | Resolve_client (Some client) \<Rightarrow>
          (Awaiting (Start_Handshake folder client),
           emit (Start client)
             (m\<lparr>clients := js_set (getFolderKey folder) client (clients m)\<rparr>))
      | Reject error \<Rightarrow> startForFolder_catch folder error m
      | _ \<Rightarrow> (Awaiting (Start_Create folder), m))"

definition after_start ::
  "host \<Rightarrow> WorkspaceFolder \<Rightarrow> LanguageClient \<Rightarrow> reply \<Rightarrow> ClientManager
     \<Rightarrow> status \<times> ClientManager" where
  "after_start h folder client r m =
     (case r of
        Reject error \<Rightarrow> startForFolder_catch folder error m
      | _ \<Rightarrow> afterStart h client folder m)"

text \<open>
  \<open>syncOpenDocuments\<close> resumed after a notification: it goes on with the loop, or it
  throws the rejection, which rejects the promise \<open>afterStart\<close> awaits.
\<close>

definition after_sendNotification ::
  "host \<Rightarrow> WorkspaceFolder \<Rightarrow> LanguageClient \<Rightarrow> TextDocument list \<Rightarrow> reply \<Rightarrow> ClientManager
     \<Rightarrow> status \<times> ClientManager" where
  "after_sendNotification h folder client docs r m =
     (case r of
        Reject error \<Rightarrow> (Awaiting (Start_AfterSync folder (Rejected error)), m)
      | _ \<Rightarrow> syncOpenDocuments_stretch h client folder docs m)"

text \<open>
  \<open>startForFolder\<close> resumed after its \<open>await\<close> on \<open>afterStart\<close>: the last line of the
  \<open>try\<close> block and the \<open>finally\<close> block, or the \<open>catch\<close> block.
\<close>

definition after_afterStart ::
  "WorkspaceFolder \<Rightarrow> settlement \<Rightarrow> ClientManager \<Rightarrow> status \<times> ClientManager" where
  "after_afterStart folder s m =
     (case s of
        Fulfilled \<Rightarrow>
          (Returned, startForFolder_finally folder (emit (Log (started_message folder)) m))
      | Rejected error \<Rightarrow> startForFolder_catch folder error m)"

definition after_onError ::
  "WorkspaceFolder \<Rightarrow> reply \<Rightarrow> ClientManager \<Rightarrow> status \<times> ClientManager" where
  "after_onError folder r m =
     (case r of
        Reject error \<Rightarrow> (Threw error, startForFolder_finally folder m)
      | _ \<Rightarrow> (Returned, startForFolder_finally folder m))"

subsection \<open>\<open>stopForFolder\<close> and \<open>stopAll\<close>\<close>

definition stopForFolder :: "WorkspaceFolder \<Rightarrow> ClientManager \<Rightarrow> status \<times> ClientManager" where
  "stopForFolder folder m =
     (let key = getFolderKey folder in
      case js_get (clients m) key of
        None \<Rightarrow> (Returned, m)
      | Some client \<Rightarrow>
          (Awaiting (Stop_Handshake folder),
           emit (Stop client) (emit (Log (stopping_message folder)) m)))"

definition after_stop :: "WorkspaceFolder \<Rightarrow> reply \<Rightarrow> ClientManager \<Rightarrow> status \<times> ClientManager" where
  "after_stop folder r m =
     (case r of
        Reject error \<Rightarrow> (Threw error, m)
      | _ \<Rightarrow>
          (let key = getFolderKey folder in
           (Returned,
            cleanupWatchers key
              (m\<lparr>clients := js_delete key (clients m),
                 diagnosticCaches := js_delete key (diagnosticCaches m)\<rparr>))))"

text \<open>
  The loop of \<open>stopAll\<close> with its iterator at \<open>index\<close>: up to the \<open>await\<close> on the next
  client's \<open>stop\<close>, or, when the iterator is exhausted, through the rest of the method.
\<close>

definition stopAll_loop :: "nat \<Rightarrow> ClientManager \<Rightarrow> status \<times> ClientManager" where
  "stopAll_loop index m =
     (case js_next (clients m) index of
        Some ((key, client), index') \<Rightarrow>
          (Awaiting (StopAll_Handshake index' key), emit (Stop client) m)
      | None \<Rightarrow>
          (Returned,
           cleanupAllWatchers (m\<lparr>diagnosticCaches := js_clear (diagnosticCaches m)\<rparr>)))"

definition stopAll :: "ClientManager \<Rightarrow> status \<times> ClientManager" where
  "stopAll m = stopAll_loop 0 (emit (Log ''Stopping all language servers...'') m)"

definition after_stop_in_stopAll ::
  "nat \<Rightarrow> string \<Rightarrow> reply \<Rightarrow> ClientManager \<Rightarrow> status \<times> ClientManager" where
  "after_stop_in_stopAll index key r m =
     (case r of
        Reject error \<Rightarrow> (Threw error, m)
      | _ \<Rightarrow> stopAll_loop index (m\<lparr>clients := js_delete key (clients m)\<rparr>))"

subsection \<open>\<open>notifyDocumentOpenIfNeeded\<close>\<close>

definition notifyDocumentOpenIfNeeded ::
  "host \<Rightarrow> TextDocument \<Rightarrow> ClientManager \<Rightarrow> status \<times> ClientManager" where
  "notifyDocumentOpenIfNeeded h document m =
     (if \<not> supportedLanguage h (languageId document) then (Returned, m)
      else
        case getWorkspaceFolder h (doc_uri document) of
          None \<Rightarrow> (Returned, m)
        | Some folder \<Rightarrow>
            (case js_get (clients m) (getFolderKey folder) of
               None \<Rightarrow> (Returned, m)
             | Some client \<Rightarrow>
                 (case getDiagnosticCacheForFolder folder m of
                    (cache, m') \<Rightarrow>
                      if \<not> js_has (store m' cache) (doc_uri document)
                      then (Awaiting Notify_Send, emit (SendDidOpen client document) m')
                      else (Returned, m'))))"

definition after_notify :: "reply \<Rightarrow> ClientManager \<Rightarrow> status \<times> ClientManager" where
  "after_notify r m = (case r of Reject error \<Rightarrow> (Threw error, m) | _ \<Rightarrow> (Returned, m))"

subsection \<open>Resuming and running\<close>

text \<open>
  A suspended method resumed with the result of the promise it awaits. At the two
  \<open>await\<close>s on the manager's own helpers the result is the settlement recorded at the
  suspension point, and no reply is consulted.
\<close>

fun resume :: "host \<Rightarrow> pc \<Rightarrow> reply \<Rightarrow> ClientManager \<Rightarrow> status \<times> ClientManager" where
  "resume h (Start_Enable folder) r m = after_shouldEnableForFolder folder r m"
| "resume h (Start_Create folder) r m = after_createClient folder r m"
| "resume h (Start_Handshake folder client) r m = after_start h folder client r m"
| "resume h (Start_Sync folder client docs) r m = after_sendNotification h folder client docs r m"
| "resume h (Start_AfterSync folder s) r m = after_syncOpenDocuments folder s m"
| "resume h (Start_AfterStart folder s) r m = after_afterStart folder s m"
| "resume h (Start_OnError folder) r m = after_onError folder r m"
| "resume h (Stop_Handshake folder) r m = after_stop folder r m"
| "resume h (StopAll_Handshake index key) r m = after_stop_in_stopAll index key r m"
| "resume h Notify_Send r m = after_notify r m"

text \<open>
  The suspension points at which the awaited promise is one of the manager's own and is
  already settled, and how many of them a method can still pass without a reply from a
  collaborator.
\<close>

fun settled :: "pc \<Rightarrow> bool" where
  "settled (Start_AfterSync folder s) = True"
| "settled (Start_AfterStart folder s) = True"
| "settled p = False"

fun ticks :: "status \<Rightarrow> nat" where
  "ticks (Awaiting (Start_AfterSync folder s)) = 2"
| "ticks (Awaiting (Start_AfterStart folder s)) = 1"
| "ticks st = 0"

text \<open>
  A method running alone: nothing else runs while it is suspended. The promises of its
  collaborators are answered in turn by the given replies, and an \<open>await\<close> on a settled
  promise of the manager's own is resumed without one. When the replies run out before
  the method has finished, it is left suspended on a collaborator.
\<close>

function run :: "host \<Rightarrow> status \<times> ClientManager \<Rightarrow> reply list \<Rightarrow> status \<times> ClientManager" where
  "run h (Awaiting p, m) rs =
     (if settled p then run h (resume h p Resolve_void m) rs
      else case rs of
             [] \<Rightarrow> (Awaiting p, m)
           | r # rs' \<Rightarrow> run h (resume h p r m) rs')"
| "run h (Returned, m) rs = (Returned, m)"
| "run h (Threw error, m) rs = (Threw error, m)"
  by pat_completeness auto
termination
proof (relation "measure (\<lambda>(h, sm, rs). 3 * length rs + ticks (fst sm))")
  show "wf (measure (\<lambda>(h, sm, rs). 3 * length rs + ticks (fst sm)))"
    by simp
next
  fix h :: host and p :: pc and m :: ClientManager and rs :: "reply list"
  assume "settled p"
  then have "ticks (fst (resume h p Resolve_void m)) < ticks (Awaiting p)"
    by (cases p)
       (simp_all add: after_syncOpenDocuments_def after_afterStart_def startForFolder_catch_def
          Let_def split: settlement.splits)
  then show "((h, resume h p Resolve_void m, rs), h, (Awaiting p, m), rs)
             \<in> measure (\<lambda>(h, sm, rs). 3 * length rs + ticks (fst sm))"
    by simp
next
  fix h :: host and p :: pc and m :: ClientManager and rs :: "reply list" and r rs'
  assume "rs = r # rs'"
  moreover have "ticks st \<le> 2" for st
    by (cases st rule: ticks.cases) simp_all
  then have "ticks (fst (resume h p r m)) \<le> 2" .
  ultimately show "((h, resume h p r m, rs'), h, (Awaiting p, m), rs)
             \<in> measure (\<lambda>(h, sm, rs). 3 * length rs + ticks (fst sm))"
    by simp
qed

subsection \<open>Interleaved calls\<close>

text \<open>
  The manager together with its suspended methods. Between two suspension points
  nothing else runs, so a step of the whole is one of: a call of a public method, run to
  its first suspension point or to its return; the delivery of a promise's result to one
  suspended method, run to its next suspension point or to its return; a write by the
  language client's diagnostics handler into a cache object it holds. A method suspended
  on a settled promise of the manager's own is resumed by a delivery like any other,
  whose reply is not consulted; any other step may come before it. The remaining
  methods either only read the tables (\<open>getClient\<close>, \<open>getFirstClient\<close>, \<open>size\<close>,
  \<open>values\<close>, \<open>getDiagnostics\<close>) or call the methods above one after the other
  (\<open>startAll\<close>, \<open>restartAll\<close>, the workspace folder listener).
\<close>

record system =
  manager :: ClientManager
  tasks :: "pc list"

datatype action =
    Call_startForFolder WorkspaceFolder
  | Call_stopForFolder WorkspaceFolder
  | Call_stopAll
  | Call_notifyDocumentOpenIfNeeded TextDocument
  | Call_registerWatchers WorkspaceFolder "Disposable list"
  | Call_getDiagnosticCacheForFolder WorkspaceFolder
  | Write_cache cache_ref string "Diagnostic list"
  | Deliver nat reply

definition new_system :: system where
  "new_system = \<lparr>manager = new_ClientManager, tasks = []\<rparr>"

definition spawn :: "pc list \<Rightarrow> status \<times> ClientManager \<Rightarrow> system" where
  "spawn ts sm =
     (case sm of
        (Awaiting p, m) \<Rightarrow> \<lparr>manager = m, tasks = ts @ [p]\<rparr>
      | (_, m) \<Rightarrow> \<lparr>manager = m, tasks = ts\<rparr>)"

definition deliver :: "host \<Rightarrow> nat \<Rightarrow> reply \<Rightarrow> system \<Rightarrow> system" where
  "deliver h i r s =
     (if i < length (tasks s) then
        (case resume h (tasks s ! i) r (manager s) of
           (Awaiting p, m) \<Rightarrow> \<lparr>manager = m, tasks = (tasks s)[i := p]\<rparr>
         | (_, m) \<Rightarrow> \<lparr>manager = m, tasks = take i (tasks s) @ drop (Suc i) (tasks s)\<rparr>)
      else s)"

definition write_cache ::
  "cache_ref \<Rightarrow> string \<Rightarrow> Diagnostic list \<Rightarrow> ClientManager \<Rightarrow> ClientManager" where
  "write_cache cache u ds m = m\<lparr>store := (store m)(cache := js_set u ds (store m cache))\<rparr>"

fun fire :: "host \<Rightarrow> action \<Rightarrow> system \<Rightarrow> system" where
  "fire h (Call_startForFolder folder) s = spawn (tasks s) (startForFolder folder (manager s))"
| "fire h (Call_stopForFolder folder) s = spawn (tasks s) (stopForFolder folder (manager s))"
| "fire h Call_stopAll s = spawn (tasks s) (stopAll (manager s))"
| "fire h (Call_notifyDocumentOpenIfNeeded document) s =
     spawn (tasks s) (notifyDocumentOpenIfNeeded h document (manager s))"
| "fire h (Call_registerWatchers folder ws) s =
     s\<lparr>manager := registerWatchers folder ws (manager s)\<rparr>"
| "fire h (Call_getDiagnosticCacheForFolder folder) s =
     s\<lparr>manager := snd (getDiagnosticCacheForFolder folder (manager s))\<rparr>"
| "fire h (Write_cache cache u ds) s = s\<lparr>manager := write_cache cache u ds (manager s)\<rparr>"
| "fire h (Deliver i r) s = deliver h i r s"

fun fires :: "(host \<times> action) list \<Rightarrow> system \<Rightarrow> system" where
  "fires [] s = s"
| "fires ((h, a) # as) s = fires as (fire h a s)"

section \<open>Notions used in the statements\<close>

subsection \<open>The guard set and the start attempts in flight\<close>

text \<open>The key of the start attempt a suspended method belongs to, if it is one.\<close>

fun start_key :: "pc \<Rightarrow> string option" where
  "start_key (Start_Enable folder) = Some (getFolderKey folder)"
| "start_key (Start_Create folder) = Some (getFolderKey folder)"
| "start_key (Start_Handshake folder client) = Some (getFolderKey folder)"
| "start_key (Start_Sync folder client docs) = Some (getFolderKey folder)"
| "start_key (Start_AfterSync folder s) = Some (getFolderKey folder)"
| "start_key (Start_AfterStart folder s) = Some (getFolderKey folder)"
| "start_key (Start_OnError folder) = Some (getFolderKey folder)"
| "start_key (Stop_Handshake folder) = None"
| "start_key (StopAll_Handshake index key) = None"
| "start_key Notify_Send = None"

fun starting :: "pc list \<Rightarrow> string list" where
  "starting [] = []"
| "starting (p # ps) = (case start_key p of Some k \<Rightarrow> k # starting ps | None \<Rightarrow> starting ps)"

text \<open>
  The guard set holds exactly the keys of the start attempts in flight, and no key has
  two attempts in flight.
\<close>

definition guard_inv :: "system \<Rightarrow> bool" where
  "guard_inv s \<longleftrightarrow>
     distinct (starting (tasks s)) \<and> set (starting (tasks s)) = pendingStarts (manager s)"

text \<open>
  What one step of a suspended method does to the guard set, given the key of the start
  attempt the method belongs to (if any) and the guard set before the step.
\<close>

definition guard_step :: "string option \<Rightarrow> string set \<Rightarrow> status \<times> ClientManager \<Rightarrow> bool" where
  "guard_step ko P sm \<longleftrightarrow>
     (case ko of
        Some k \<Rightarrow>
          (case fst sm of
             Awaiting p' \<Rightarrow> start_key p' = Some k \<and> pendingStarts (snd sm) = P
           | _ \<Rightarrow> pendingStarts (snd sm) = P - {k})
      | None \<Rightarrow>
          pendingStarts (snd sm) = P \<and>
          (case fst sm of Awaiting p' \<Rightarrow> start_key p' = None | _ \<Rightarrow> True))"

subsection \<open>The diagnostic caches during a start attempt\<close>

text \<open>
  The suspension points from which a start attempt no longer writes to the registry of
  diagnostic caches: those after \<open>afterStart\<close> has replaced the key's cache, and the
  one in the \<open>catch\<close> block. A method is said to keep the caches when the registry,
  the cache objects and the allocation counter are the given ones and the method, if
  suspended, is at such a point.
\<close>

fun leaves_caches :: "pc \<Rightarrow> bool" where
  "leaves_caches (Start_Sync folder client docs) = True"
| "leaves_caches (Start_AfterSync folder s) = True"
| "leaves_caches (Start_AfterStart folder s) = True"
| "leaves_caches (Start_OnError folder) = True"
| "leaves_caches p = False"

definition caches_kept ::
  "(string, cache_ref) jsmap \<Rightarrow> (cache_ref \<Rightarrow> cache) \<Rightarrow> cache_ref \<Rightarrow> status \<times> ClientManager \<Rightarrow> bool" where
  "caches_kept registry objects n sm \<longleftrightarrow>
     diagnosticCaches (snd sm) = registry \<and> store (snd sm) = objects \<and> next_ref (snd sm) = n
     \<and> (case fst sm of Awaiting p \<Rightarrow> leaves_caches p | _ \<Rightarrow> True)"

subsection \<open>Well-formed managers\<close>

text \<open>
  What every manager built by its own methods satisfies: no map has two entries for one
  key, and every registered cache reference has been allocated.
\<close>

definition js_wf :: "('k, 'v) jsmap \<Rightarrow> bool" where
  "js_wf es \<longleftrightarrow> distinct (map fst (js_entries es))"

definition refs_allocated :: "ClientManager \<Rightarrow> bool" where
  "refs_allocated m \<longleftrightarrow> list_all (\<lambda>(k, r). r < next_ref m) (js_entries (diagnosticCaches m))"

definition wf_manager :: "ClientManager \<Rightarrow> bool" where
  "wf_manager m \<longleftrightarrow>
     js_wf (clients m) \<and> js_wf (diagnosticCaches m) \<and> js_wf (watchers m) \<and> refs_allocated m"

subsection \<open>Reading the tables and the record of calls\<close>

text \<open>The watcher set registered for a key; none registered is no handle.\<close>

definition registered_watchers :: "ClientManager \<Rightarrow> string \<Rightarrow> Disposable list" where
  "registered_watchers m key = (case js_get (watchers m) key of None \<Rightarrow> [] | Some ws \<Rightarrow> ws)"

text \<open>
  The contents of the diagnostic cache registered for a key; a key with no registered
  cache has no cached document.
\<close>

definition cached :: "ClientManager \<Rightarrow> string \<Rightarrow> cache" where
  "cached m key = (case js_get (diagnosticCaches m) key of None \<Rightarrow> js_empty | Some r \<Rightarrow> store m r)"

text \<open>
  The documents \<open>syncOpenDocuments\<close> is to announce for a folder: the visible ones in a
  supported language that the workspace assigns to a folder with this folder's key.
\<close>

definition belongs_to :: "host \<Rightarrow> WorkspaceFolder \<Rightarrow> TextDocument \<Rightarrow> bool" where
  "belongs_to h folder doc \<longleftrightarrow>
     supportedLanguage h (languageId doc) \<and>
     (case getWorkspaceFolder h (doc_uri doc) of
        None \<Rightarrow> False
      | Some docFolder \<Rightarrow> getFolderKey docFolder = getFolderKey folder)"

definition opened_documents :: "host \<Rightarrow> WorkspaceFolder \<Rightarrow> TextDocument list" where
  "opened_documents h folder = filter (belongs_to h folder) (textDocuments h)"

fun is_CreateClient :: "call \<Rightarrow> bool" where
  "is_CreateClient (CreateClient folder) = True"
| "is_CreateClient c = False"

fun is_OnError :: "call \<Rightarrow> bool" where
  "is_OnError (OnError message folder) = True"
| "is_OnError c = False"

fun is_SendDidOpen :: "call \<Rightarrow> bool" where
  "is_SendDidOpen (SendDidOpen client doc) = True"
| "is_SendDidOpen c = False"

text \<open>
  The calls of \<open>stop\<close> on the clients of some entries of the connection table, and the
  calls of \<open>dispose\<close> on the handles of some entries of the watcher registry, in order.
\<close>

definition stop_calls :: "(string \<times> LanguageClient) list \<Rightarrow> call list" where
  "stop_calls es = map (\<lambda>(key, client). Stop client) es"

definition dispose_calls :: "(string \<times> Disposable list) list \<Rightarrow> call list" where
  "dispose_calls ws = concat (map (\<lambda>(key, watcherList). map Dispose watcherList) ws)"

subsection \<open>Where a start attempt fails\<close>

text \<open>
  The three places named by the specification's start failure: the replies a start
  attempt has received when the promise awaited there is rejected, and the calls it has
  made by then.
\<close>

datatype failure_point = Enablement_throws | Factory_throws | Handshake_throws

fun replies_until :: "failure_point \<Rightarrow> LanguageClient \<Rightarrow> reply list" where
  "replies_until Enablement_throws client = []"
| "replies_until Factory_throws client = [Resolve_bool True]"
| "replies_until Handshake_throws client = [Resolve_bool True, Resolve_client (Some client)]"

fun calls_until :: "failure_point \<Rightarrow> WorkspaceFolder \<Rightarrow> LanguageClient \<Rightarrow> call list" where
  "calls_until Enablement_throws folder client = [ShouldEnableForFolder folder]"
| "calls_until Factory_throws folder client = [ShouldEnableForFolder folder, CreateClient folder]"
| "calls_until Handshake_throws folder client =
     [ShouldEnableForFolder folder, CreateClient folder, Start client]"

subsection \<open>\<open>stopAll\<close> over a snapshot\<close>

text \<open>
  \<open>stopAll\<close> as the specification words it: the entries of the connection table are
  taken before the walk, and each is stopped and deleted in turn (every stop handshake
  succeeding); then the caches are cleared and the watchers disposed.
\<close>

fun stop_each :: "(string \<times> LanguageClient) list \<Rightarrow> ClientManager \<Rightarrow> ClientManager" where
  "stop_each [] m = m"
| "stop_each ((key, client) # rest) m =
     stop_each rest ((emit (Stop client) m)\<lparr>clients := js_delete key (clients m)\<rparr>)"

definition stopAll_snapshotted :: "ClientManager \<Rightarrow> ClientManager" where
  "stopAll_snapshotted m =
     (let m1 = emit (Log ''Stopping all language servers...'') m;
          snapshot = js_entries (clients m1);
          m2 = stop_each snapshot m1
      in cleanupAllWatchers (m2\<lparr>diagnosticCaches := js_clear (diagnosticCaches m2)\<rparr>))"

section \<open>A workspace of two folders\<close>

text \<open>
  The data the statements below are tried on: the two folders of the test suite's
  multi-folder cases, five visible documents (three in the first folder, one of them
  not Ruby; one in the second folder; one in no folder), and managers in several
  states.
\<close>

definition example_app :: WorkspaceFolder where
  "example_app = \<lparr>name = ''rails-app'', uri = ''file:///workspace/rails-app''\<rparr>"

definition example_tool :: WorkspaceFolder where
  "example_tool = \<lparr>name = ''cli-tool'', uri = ''file:///workspace/cli-tool''\<rparr>"

definition example_a_rb :: TextDocument where
  "example_a_rb = \<lparr>doc_uri = ''file:///workspace/rails-app/a.rb'', languageId = ''ruby''\<rparr>"

definition example_b_rb :: TextDocument where
  "example_b_rb = \<lparr>doc_uri = ''file:///workspace/rails-app/b.rb'', languageId = ''ruby''\<rparr>"

definition example_readme :: TextDocument where
  "example_readme =
     \<lparr>doc_uri = ''file:///workspace/rails-app/README.md'', languageId = ''markdown''\<rparr>"

definition example_main_rb :: TextDocument where
  "example_main_rb = \<lparr>doc_uri = ''file:///workspace/cli-tool/main.rb'', languageId = ''ruby''\<rparr>"

definition example_stray :: TextDocument where
  "example_stray = \<lparr>doc_uri = ''file:///tmp/scratch.rb'', languageId = ''ruby''\<rparr>"

definition example_host :: host where
  "example_host =
     \<lparr>supportedLanguage = (\<lambda>l. l = ''ruby'' \<or> l = ''gemfile''),
      getWorkspaceFolder =
        (\<lambda>u. if u = ''file:///workspace/rails-app/a.rb'' \<or> u = ''file:///workspace/rails-app/b.rb''
                  \<or> u = ''file:///workspace/rails-app/README.md''
               then Some example_app
               else if u = ''file:///workspace/cli-tool/main.rb'' then Some example_tool
               else None),
      textDocuments =
        [\<lparr>doc_uri = ''file:///workspace/rails-app/a.rb'', languageId = ''ruby''\<rparr>,
         \<lparr>doc_uri = ''file:///workspace/cli-tool/main.rb'', languageId = ''ruby''\<rparr>,
         \<lparr>doc_uri = ''file:///workspace/rails-app/README.md'', languageId = ''markdown''\<rparr>,
         \<lparr>doc_uri = ''file:///workspace/rails-app/b.rb'', languageId = ''ruby''\<rparr>,
         \<lparr>doc_uri = ''file:///tmp/scratch.rb'', languageId = ''ruby''\<rparr>]\<rparr>"

text \<open>A new manager that has been asked for the first folder's cache.\<close>

definition example_manager :: ClientManager where
  "example_manager = snd (getDiagnosticCacheForFolder example_app new_ClientManager)"

text \<open>
  The second folder has a client; both folders have watchers registered; no start is in
  flight.
\<close>

definition example_watched :: ClientManager where
  "example_watched =
     new_ClientManager
       \<lparr>clients := [Some (getFolderKey example_tool, LanguageClient 2)],
        watchers := [Some (getFolderKey example_tool, [Disposable 3]),
                     Some (getFolderKey example_app, [Disposable 1, Disposable 2])]\<rparr>"

text \<open>
  The first folder has a client, two watcher handles, and a cache that holds
  diagnostics for one document.
\<close>

definition example_running :: ClientManager where
  "example_running =
     new_ClientManager
       \<lparr>clients := [Some (getFolderKey example_app, LanguageClient 1)],
        diagnosticCaches := [Some (getFolderKey example_app, 0)],
        watchers := [Some (getFolderKey example_app, [Disposable 1, Disposable 2])],
        store := (\<lambda>r. js_empty)
          (0 := [Some (''file:///workspace/rails-app/a.rb'', [''Style/StringLiterals''])]),
        next_ref := 1\<rparr>"

text \<open>
  Both folders have clients, with a deleted entry between them in the connection
  table; a third key has watchers but no client.
\<close>

definition example_busy :: ClientManager where
  "example_busy =
     new_ClientManager
       \<lparr>clients := [Some (getFolderKey example_app, LanguageClient 1), None,
                    Some (getFolderKey example_tool, LanguageClient 2)],
        diagnosticCaches := [Some (getFolderKey example_app, 0),
                             Some (getFolderKey example_tool, 1)],
        watchers := [Some (''file:///workspace/old'', [Disposable 9]),
                     Some (getFolderKey example_app, [Disposable 1, Disposable 2]),
                     Some (getFolderKey example_tool, [Disposable 3])],
        next_ref := 2\<rparr>"

text \<open>
  Two starts interleaved with a registration of watchers: the first folder's attempt is
  suspended on its handshake, the second folder's on its factory.
\<close>

definition example_interleaving :: "(host \<times> action) list" where
  "example_interleaving =
     [(example_host, Call_startForFolder example_app),
      (example_host, Call_registerWatchers example_app [Disposable 1, Disposable 2]),
      (example_host, Call_startForFolder example_tool),
      (example_host, Deliver 1 (Resolve_bool True)),
      (example_host, Deliver 0 (Resolve_bool True)),
      (example_host, Deliver 0 (Resolve_client (Some (LanguageClient 1))))]"

text \<open>
  A start attempt for the first folder on a new manager: the client's handshake
  succeeds, the first open notification is rejected, and the error callback completes.
\<close>

definition example_replay_cut :: "status \<times> ClientManager" where
  "example_replay_cut =
     run example_host (startForFolder example_app new_ClientManager)
       [Resolve_bool True, Resolve_client (Some (LanguageClient 1)), Resolve_void,
        Reject ''write EPIPE'', Resolve_void]"

text \<open>
  A start attempt for the first folder while the second folder runs and both have
  watchers: the factory throws, and the promise of the error callback is rejected.
\<close>

definition example_report_fails :: "status \<times> ClientManager" where
  "example_report_fails =
     run example_host (startForFolder example_app example_watched)
       [Resolve_bool True, Reject ''spawn ENOENT'', Reject ''window disposed'']"

text \<open>
  A start attempt overtaken by \<open>stopAll\<close>: the second folder's client has completed its
  handshake and accepted the one open notification, so \<open>syncOpenDocuments\<close> has returned
  and \<open>afterStart\<close> waits to be resumed; before it is, \<open>stopAll\<close> is called and its stop
  handshake succeeds. Then \<open>afterStart\<close> is resumed, and \<open>startForFolder\<close> waits to be
  resumed in its turn.
\<close>

definition example_overtaken :: "(host \<times> action) list" where
  "example_overtaken =
     [(example_host, Call_registerWatchers example_tool [Disposable 3]),
      (example_host, Call_startForFolder example_tool),
      (example_host, Deliver 0 (Resolve_bool True)),
      (example_host, Deliver 0 (Resolve_client (Some (LanguageClient 2)))),
      (example_host, Deliver 0 Resolve_void),
      (example_host, Deliver 0 Resolve_void),
      (example_host, Call_stopAll),
      (example_host, Deliver 1 Resolve_void),
      (example_host, Deliver 0 Resolve_void)]"

text \<open>
  Watchers registered a second time for the running first folder; the folder then
  stopped; then everything stopped.
\<close>

definition example_reregistered :: ClientManager where
  "example_reregistered = registerWatchers example_app [Disposable 7] example_running"

definition example_after_stop :: ClientManager where
  "example_after_stop =
     snd (run example_host (stopForFolder example_app example_reregistered) [Resolve_void])"

definition example_after_stopAll :: ClientManager where
  "example_after_stopAll = snd (run example_host (stopAll example_after_stop) [])"

text \<open>
  \<open>stopAll\<close> with both folders running: after the first stop handshake has succeeded,
  and after the second one has then thrown.
\<close>

definition example_stopAll_midway :: "status \<times> ClientManager" where
  "example_stopAll_midway = run example_host (stopAll example_busy) [Resolve_void]"

definition example_stopAll_aborted :: "status \<times> ClientManager" where
  "example_stopAll_aborted =
     run example_host (stopAll example_busy) [Resolve_void, Reject ''timeout'']"

section \<open>Properties of the map operations\<close>

lemma js_get_set: "js_get (js_set k v es) k' = (if k' = k then Some v else js_get es k')"
  by (induction k v es rule: js_set.induct) auto

lemma js_has_set: "js_has (js_set k v es) k' \<longleftrightarrow> k' = k \<or> js_has es k'"
  by (simp add: js_has_def js_get_set)

lemma js_get_entries: "js_get es k = map_of (js_entries es) k"
  by (induction es k rule: js_get.induct) auto

lemma keys_js_set:
  "map fst (js_entries (js_set k v es)) =
     (if k \<in> set (map fst (js_entries es)) then map fst (js_entries es)
      else map fst (js_entries es) @ [k])"
  by (induction k v es rule: js_set.induct) auto

lemma keys_js_delete: "map fst (js_entries (js_delete k es)) = remove1 k (map fst (js_entries es))"
  by (induction k es rule: js_delete.induct) auto

lemma js_wf_set: "js_wf es \<Longrightarrow> js_wf (js_set k v es)"
  by (simp add: js_wf_def keys_js_set)

lemma js_wf_delete: "js_wf es \<Longrightarrow> js_wf (js_delete k es)"
  by (simp add: js_wf_def keys_js_delete)

lemma js_entries_clear: "js_entries (js_clear es) = []"
  by (induction es) (simp_all add: js_clear_def)

lemma js_get_None_iff: "js_get es k = None \<longleftrightarrow> k \<notin> set (map fst (js_entries es))"
  by (simp add: js_get_entries map_of_eq_None_iff)

lemma js_get_delete_same: "js_wf es \<Longrightarrow> js_get (js_delete k es) k = None"
  unfolding js_get_None_iff keys_js_delete js_wf_def by simp

lemma js_entries_set_new:
  "\<not> js_has es k \<Longrightarrow> js_entries (js_set k v es) = js_entries es @ [(k, v)]"
  by (induction k v es rule: js_set.induct) (auto simp: js_has_def)

lemma js_entries_delete_absent: "\<not> js_has es k \<Longrightarrow> js_entries (js_delete k es) = js_entries es"
  by (induction k es rule: js_delete.induct) (auto simp: js_has_def)

lemma js_entries_delete_set_new:
  "\<not> js_has es k \<Longrightarrow> js_entries (js_delete k (js_set k v es)) = js_entries es"
  by (induction k v es rule: js_set.induct) (auto simp: js_has_def)

section \<open>What the helpers leave unchanged\<close>

lemma emit_fields [simp]:
  "clients (emit c m) = clients m" "diagnosticCaches (emit c m) = diagnosticCaches m"
  "watchers (emit c m) = watchers m" "pendingStarts (emit c m) = pendingStarts m"
  "store (emit c m) = store m" "next_ref (emit c m) = next_ref m"
  "calls (emit c m) = calls m @ [c]"
  by (simp_all add: emit_def)

lemma cleanupWatchers_fields [simp]:
  "clients (cleanupWatchers k m) = clients m"
  "diagnosticCaches (cleanupWatchers k m) = diagnosticCaches m"
  "pendingStarts (cleanupWatchers k m) = pendingStarts m"
  "store (cleanupWatchers k m) = store m" "next_ref (cleanupWatchers k m) = next_ref m"
  by (simp_all add: cleanupWatchers_def split: option.splits)

lemma js_delete_absent: "js_get es k = None \<Longrightarrow> js_delete k es = es"
  by (induction k es rule: js_delete.induct) (auto split: if_splits)

lemma cleanupWatchers_watchers:
  "watchers (cleanupWatchers k m) = js_delete k (watchers m)"
  by (simp add: cleanupWatchers_def js_delete_absent split: option.splits)

lemma startForFolder_catch_eq:
  "startForFolder_catch folder e m =
     (Awaiting (Start_OnError folder),
      m\<lparr>clients := js_delete (getFolderKey folder) (clients m),
        watchers := js_delete (getFolderKey folder) (watchers m),
        calls := calls m @ map Dispose (registered_watchers m (getFolderKey folder))
                   @ [Log (failed_log_message folder e), OnError (failed_message folder) folder]\<rparr>)"
  by (simp add: startForFolder_catch_def Let_def cleanupWatchers_def emit_def
        registered_watchers_def js_delete_absent split: option.splits)

declare cleanupAllWatchers_from.simps [simp del]

lemma cleanupAllWatchers_from_fields [simp]:
  "clients (cleanupAllWatchers_from i m) = clients m"
  "diagnosticCaches (cleanupAllWatchers_from i m) = diagnosticCaches m"
  "pendingStarts (cleanupAllWatchers_from i m) = pendingStarts m"
  "store (cleanupAllWatchers_from i m) = store m"
  "next_ref (cleanupAllWatchers_from i m) = next_ref m"
  by (induction i m rule: cleanupAllWatchers_from.induct;
      subst cleanupAllWatchers_from.simps; simp split: option.splits prod.splits)+

lemma syncOpenDocuments_fields [simp]:
  "clients (snd (syncOpenDocuments h c f docs m)) = clients m"
  "diagnosticCaches (snd (syncOpenDocuments h c f docs m)) = diagnosticCaches m"
  "watchers (snd (syncOpenDocuments h c f docs m)) = watchers m"
  "pendingStarts (snd (syncOpenDocuments h c f docs m)) = pendingStarts m"
  "store (snd (syncOpenDocuments h c f docs m)) = store m"
  "next_ref (snd (syncOpenDocuments h c f docs m)) = next_ref m"
  by (induction docs; simp split: option.splits)+

lemma startForFolder_finally_fields [simp]:
  "clients (startForFolder_finally f m) = clients m"
  "diagnosticCaches (startForFolder_finally f m) = diagnosticCaches m"
  "watchers (startForFolder_finally f m) = watchers m"
  "pendingStarts (startForFolder_finally f m) = pendingStarts m - {getFolderKey f}"
  "store (startForFolder_finally f m) = store m"
  "next_ref (startForFolder_finally f m) = next_ref m"
  "calls (startForFolder_finally f m) = calls m"
  by (simp_all add: startForFolder_finally_def)

section \<open>A method running alone\<close>

declare run.simps(1) [simp del]

lemma run_replies [simp]:
  "\<not> settled p \<Longrightarrow> run h (Awaiting p, m) [] = (Awaiting p, m)"
  "\<not> settled p \<Longrightarrow> run h (Awaiting p, m) (r # rs) = run h (resume h p r m) rs"
  by (simp_all add: run.simps(1))

lemma run_settled [simp]:
  "settled p \<Longrightarrow> run h (Awaiting p, m) rs = run h (resume h p Resolve_void m) rs"
  by (simp add: run.simps(1))

lemma run_append: "run h (run h sm rs1) rs2 = run h sm (rs1 @ rs2)"
proof (induction h sm rs1 rule: run.induct)
  case (1 h p m rs)
  show ?case
  proof (cases "settled p")
    case True
    with 1(1) show ?thesis by simp
  next
    case False
    show ?thesis
    proof (cases rs)
      case Nil
      with False show ?thesis by simp
    next
      case (Cons r rs')
      with False 1(2) [OF False Cons] show ?thesis by simp
    qed
  qed
next
  case (2 h m rs)
  show ?case by simp
next
  case (3 h e m rs)
  show ?case by simp
qed

lemmas start_steps =
  startForFolder_def after_shouldEnableForFolder_def after_createClient_def after_start_def
  after_sendNotification_def after_onError_def afterStart_def syncOpenDocuments_stretch_def
  after_syncOpenDocuments_def after_afterStart_def
  startForFolder_catch_def startForFolder_finally_def cleanupWatchers_def emit_def Let_def

lemmas example_data =
  example_host_def example_app_def example_tool_def getFolderKey_def new_ClientManager_def
  js_empty_def js_has_def

section \<open>The guard set is the set of start attempts in flight\<close>

lemma catch_guard:
  "guard_step (Some (getFolderKey f)) (pendingStarts m) (startForFolder_catch f e m)"
  by (simp add: guard_step_def startForFolder_catch_def Let_def)

lemma stretch_guard:
  "guard_step (Some (getFolderKey f)) (pendingStarts m) (syncOpenDocuments_stretch h c f docs m)"
proof -
  obtain o' m' where s: "syncOpenDocuments h c f docs m = (o', m')"
    by (cases "syncOpenDocuments h c f docs m")
  have "pendingStarts (snd (syncOpenDocuments h c f docs m)) = pendingStarts m"
    by simp
  with s have "pendingStarts m' = pendingStarts m" by simp
  with s show ?thesis
    by (cases o') (simp_all add: guard_step_def syncOpenDocuments_stretch_def)
qed

lemma resume_guard: "guard_step (start_key p) (pendingStarts m) (resume h p r m)"
proof (cases p)
  case (Start_Enable f)
  then show ?thesis
    using catch_guard [of f m]
    by (cases r) (auto simp: after_shouldEnableForFolder_def guard_step_def)
next
  case (Start_Create f)
  then show ?thesis
    using catch_guard [of f m]
    by (cases r) (auto simp: after_createClient_def guard_step_def split: option.splits)
next
  case (Start_Handshake f c)
  have "guard_step (Some (getFolderKey f)) (pendingStarts m) (afterStart h c f m)"
    using stretch_guard
      [of f "m\<lparr>store := (store m)(next_ref m := js_empty), next_ref := Suc (next_ref m),
               diagnosticCaches := js_set (getFolderKey f) (next_ref m) (diagnosticCaches m)\<rparr>"]
    by (simp add: afterStart_def Let_def)
  with Start_Handshake show ?thesis
    using catch_guard [of f m]
    by (cases r) (auto simp: after_start_def)
next
  case (Start_Sync f c docs)
  then show ?thesis
    using stretch_guard [of f m]
    by (cases r) (auto simp: after_sendNotification_def guard_step_def)
next
  case (Start_AfterSync f s)
  then show ?thesis
    by (cases s) (auto simp: after_syncOpenDocuments_def guard_step_def)
next
  case (Start_AfterStart f s)
  then show ?thesis
    using catch_guard [of f m]
    by (cases s) (auto simp: after_afterStart_def guard_step_def)
next
  case (Start_OnError f)
  then show ?thesis
    by (cases r) (auto simp: after_onError_def guard_step_def)
next
  case (Stop_Handshake f)
  then show ?thesis
    by (cases r) (auto simp: after_stop_def guard_step_def Let_def)
next
  case (StopAll_Handshake i k)
  then show ?thesis
    by (cases r) (auto simp: after_stop_in_stopAll_def stopAll_loop_def cleanupAllWatchers_def guard_step_def split: option.splits)
next
  case Notify_Send
  then show ?thesis
    by (cases r) (auto simp: after_notify_def guard_step_def)
qed

lemma starting_append: "starting (xs @ ys) = starting xs @ starting ys"
  by (induction xs) (simp_all split: option.splits)

lemma starting_split:
  "i < length ts \<Longrightarrow>
   starting ts = starting (take i ts) @ starting [ts ! i] @ starting (drop (Suc i) ts)"
  by (metis starting_append id_take_nth_drop append_Cons append_Nil)

lemma starting_update:
  "i < length ts \<Longrightarrow> start_key p = start_key (ts ! i) \<Longrightarrow> starting (ts[i := p]) = starting ts"
  by (simp add: upd_conv_take_nth_drop starting_append starting_split [of i ts]
           split: option.splits)

lemma starting_remove_None:
  "i < length ts \<Longrightarrow> start_key (ts ! i) = None \<Longrightarrow>
   starting (take i ts @ drop (Suc i) ts) = starting ts"
  by (simp add: starting_append starting_split [of i ts] split: option.splits)

lemma starting_remove_Some:
  assumes "i < length ts" "start_key (ts ! i) = Some k" "distinct (starting ts)"
  shows "distinct (starting (take i ts @ drop (Suc i) ts)) \<and>
         set (starting (take i ts @ drop (Suc i) ts)) = set (starting ts) - {k}"
proof -
  have "starting ts = starting (take i ts) @ k # starting (drop (Suc i) ts)"
    using assms(1,2) by (simp add: starting_split [of i ts])
  with assms(3) show ?thesis
    by (auto simp: starting_append)
qed

lemma guard_inv_deliver:
  assumes "guard_inv s"
  shows "guard_inv (deliver h i r s)"
proof (cases "i < length (tasks s)")
  case False
  with assms show ?thesis by (simp add: deliver_def)
next
  case True
  obtain st m' where res: "resume h (tasks s ! i) r (manager s) = (st, m')"
    by (cases "resume h (tasks s ! i) r (manager s)")
  have step: "guard_step (start_key (tasks s ! i)) (pendingStarts (manager s)) (st, m')"
    using resume_guard [of "tasks s ! i" "manager s" h r] res by simp
  show ?thesis
  proof (cases st)
    case (Awaiting p')
    with step have "start_key p' = start_key (tasks s ! i)"
      and "pendingStarts m' = pendingStarts (manager s)"
      by (auto simp: guard_step_def split: option.splits)
    with assms True res Awaiting show ?thesis
      by (simp add: deliver_def guard_inv_def starting_update)
  next
    case Returned
    show ?thesis
    proof (cases "start_key (tasks s ! i)")
      case None
      with step Returned have "pendingStarts m' = pendingStarts (manager s)"
        by (simp add: guard_step_def)
      with assms True res Returned None show ?thesis
        by (simp add: deliver_def guard_inv_def starting_remove_None)
    next
      case (Some k)
      with step Returned have "pendingStarts m' = pendingStarts (manager s) - {k}"
        by (simp add: guard_step_def)
      with assms True res Returned starting_remove_Some [OF True Some] show ?thesis
        by (simp add: deliver_def guard_inv_def)
    qed
  next
    case (Threw e)
    show ?thesis
    proof (cases "start_key (tasks s ! i)")
      case None
      with step Threw have "pendingStarts m' = pendingStarts (manager s)"
        by (simp add: guard_step_def)
      with assms True res Threw None show ?thesis
        by (simp add: deliver_def guard_inv_def starting_remove_None)
    next
      case (Some k)
      with step Threw have "pendingStarts m' = pendingStarts (manager s) - {k}"
        by (simp add: guard_step_def)
      with assms True res Threw starting_remove_Some [OF True Some] show ?thesis
        by (simp add: deliver_def guard_inv_def)
    qed
  qed
qed

lemma guard_inv_fire:
  assumes "guard_inv s"
  shows "guard_inv (fire h a s)"
proof (cases a)
  case (Call_startForFolder f)
  with assms show ?thesis
    by (auto simp: guard_inv_def spawn_def startForFolder_def Let_def starting_append)
next
  case (Call_stopForFolder f)
  with assms show ?thesis
    by (auto simp: guard_inv_def spawn_def stopForFolder_def Let_def starting_append
             split: option.splits)
next
  case Call_stopAll
  with assms show ?thesis
    by (auto simp: guard_inv_def spawn_def stopAll_def stopAll_loop_def cleanupAllWatchers_def
                   starting_append split: option.splits)
next
  case (Call_notifyDocumentOpenIfNeeded d)
  with assms show ?thesis
    by (auto simp: guard_inv_def spawn_def notifyDocumentOpenIfNeeded_def
                   getDiagnosticCacheForFolder_def Let_def starting_append
             split: option.splits)
next
  case (Call_registerWatchers f ws)
  with assms show ?thesis by (simp add: guard_inv_def registerWatchers_def)
next
  case (Call_getDiagnosticCacheForFolder f)
  with assms show ?thesis
    by (simp add: guard_inv_def getDiagnosticCacheForFolder_def Let_def split: option.splits)
next
  case (Write_cache c u ds)
  with assms show ?thesis by (simp add: guard_inv_def write_cache_def)
next
  case (Deliver i r)
  with assms show ?thesis by (simp add: guard_inv_deliver)
qed

lemma guard_inv_fires: "guard_inv s \<Longrightarrow> guard_inv (fires acts s)"
  by (induction acts arbitrary: s) (auto simp: guard_inv_fire)

lemma guard_inv_new: "guard_inv new_system"
  by (simp add: guard_inv_def new_system_def new_ClientManager_def)

section \<open>Starting a folder\<close>

lemma stretch_run:
  "run h (syncOpenDocuments_stretch h c f docs m)
         (replicate (length (filter (belongs_to h f) docs)) Resolve_void) =
     (Returned,
      m\<lparr>pendingStarts := pendingStarts m - {getFolderKey f},
        calls := calls m @ map (SendDidOpen c) (filter (belongs_to h f) docs)
                   @ [OnStatusUpdate, Log (started_message f)]\<rparr>)"
proof (induction docs arbitrary: m)
  case Nil
  show ?case
    by (simp add: syncOpenDocuments_stretch_def after_syncOpenDocuments_def
          after_afterStart_def startForFolder_finally_def emit_def)
next
  case (Cons doc docs)
  show ?case
  proof (cases "belongs_to h f doc")
    case True
    then have "syncOpenDocuments_stretch h c f (doc # docs) m =
                 (Awaiting (Start_Sync f c docs), emit (SendDidOpen c doc) m)"
      by (auto simp: syncOpenDocuments_stretch_def belongs_to_def split: option.splits)
    with True show ?thesis
      using Cons.IH [of "emit (SendDidOpen c doc) m"]
      by (simp add: after_sendNotification_def emit_def)
  next
    case False
    then have "syncOpenDocuments_stretch h c f (doc # docs) m =
                 syncOpenDocuments_stretch h c f docs m"
      by (auto simp: syncOpenDocuments_stretch_def belongs_to_def split: option.splits)
    with False show ?thesis
      using Cons.IH [of m] by simp
  qed
qed

lemma stretch_run_upto:
  assumes "filter (belongs_to h f) docs = ds1 @ d # ds2"
  shows "\<exists>rest. run h (syncOpenDocuments_stretch h c f docs m)
                    (replicate (length ds1) Resolve_void) =
                  (Awaiting (Start_Sync f c rest),
                   m\<lparr>calls := calls m @ map (SendDidOpen c) (ds1 @ [d])\<rparr>)
                \<and> filter (belongs_to h f) rest = ds2"
  using assms
proof (induction docs arbitrary: m ds1)
  case Nil
  then show ?case by simp
next
  case (Cons doc docs)
  show ?case
  proof (cases "belongs_to h f doc")
    case False
    then have "syncOpenDocuments_stretch h c f (doc # docs) m =
                 syncOpenDocuments_stretch h c f docs m"
      by (auto simp: syncOpenDocuments_stretch_def belongs_to_def split: option.splits)
    with False Cons.IH [of ds1 m] Cons.prems show ?thesis by simp
  next
    case True
    then have st: "syncOpenDocuments_stretch h c f (doc # docs) m =
                 (Awaiting (Start_Sync f c docs), emit (SendDidOpen c doc) m)"
      by (auto simp: syncOpenDocuments_stretch_def belongs_to_def split: option.splits)
    show ?thesis
    proof (cases ds1)
      case Nil
      with True Cons.prems have "doc = d" "filter (belongs_to h f) docs = ds2"
        by simp_all
      with Nil st have "run h (syncOpenDocuments_stretch h c f (doc # docs) m)
                    (replicate (length ds1) Resolve_void) =
                  (Awaiting (Start_Sync f c docs),
                   m\<lparr>calls := calls m @ map (SendDidOpen c) (ds1 @ [d])\<rparr>)
                \<and> filter (belongs_to h f) docs = ds2"
        by (simp add: emit_def)
      then show ?thesis by blast
    next
      case (Cons b ds1')
      with True Cons.prems have b: "doc = b" and e: "filter (belongs_to h f) docs = ds1' @ d # ds2"
        by simp_all
      from Cons.IH [OF e, of "emit (SendDidOpen c doc) m"] obtain rest where
        "run h (syncOpenDocuments_stretch h c f docs (emit (SendDidOpen c doc) m))
             (replicate (length ds1') Resolve_void) =
           (Awaiting (Start_Sync f c rest),
            (emit (SendDidOpen c doc) m)
              \<lparr>calls := calls (emit (SendDidOpen c doc) m) @ map (SendDidOpen c) (ds1' @ [d])\<rparr>)"
        and "filter (belongs_to h f) rest = ds2"
        by blast
      with st Cons b have "run h (syncOpenDocuments_stretch h c f (doc # docs) m)
                    (replicate (length ds1) Resolve_void) =
                  (Awaiting (Start_Sync f c rest),
                   m\<lparr>calls := calls m @ map (SendDidOpen c) (ds1 @ [d])\<rparr>)
                \<and> filter (belongs_to h f) rest = ds2"
        by (simp add: after_sendNotification_def emit_def)
      then show ?thesis by blast
    qed
  qed
qed

lemma stretch_caches_kept:
  "caches_kept (diagnosticCaches m) (store m) (next_ref m) (syncOpenDocuments_stretch h c f docs m)"
proof -
  obtain o' m' where s: "syncOpenDocuments h c f docs m = (o', m')"
    by (cases "syncOpenDocuments h c f docs m")
  have "diagnosticCaches (snd (syncOpenDocuments h c f docs m)) = diagnosticCaches m"
    "store (snd (syncOpenDocuments h c f docs m)) = store m"
    "next_ref (snd (syncOpenDocuments h c f docs m)) = next_ref m"
    by simp_all
  with s have "diagnosticCaches m' = diagnosticCaches m" "store m' = store m"
    "next_ref m' = next_ref m"
    by simp_all
  with s show ?thesis
    by (cases o') (simp_all add: caches_kept_def syncOpenDocuments_stretch_def)
qed

lemma catch_caches_kept:
  "caches_kept (diagnosticCaches m) (store m) (next_ref m) (startForFolder_catch f e m)"
  by (simp add: caches_kept_def startForFolder_catch_def Let_def)

lemma resume_caches_kept:
  assumes "leaves_caches p"
  shows "caches_kept (diagnosticCaches m) (store m) (next_ref m) (resume h p r m)"
proof (cases p)
  case (Start_Sync f c docs)
  then show ?thesis
    using stretch_caches_kept [of m h c f docs]
    by (cases r) (auto simp: after_sendNotification_def caches_kept_def)
next
  case (Start_AfterSync f s)
  then show ?thesis
    by (cases s) (auto simp: after_syncOpenDocuments_def caches_kept_def)
next
  case (Start_AfterStart f s)
  then show ?thesis
    using catch_caches_kept [of m f]
    by (cases s) (auto simp: after_afterStart_def caches_kept_def)
next
  case (Start_OnError f)
  then show ?thesis
    by (cases r) (auto simp: after_onError_def caches_kept_def)
qed (use assms in simp_all)

lemma run_caches_kept:
  "caches_kept registry objects n sm \<Longrightarrow> caches_kept registry objects n (run h sm rs)"
proof (induction h sm rs rule: run.induct)
  case (1 h p m rs)
  from "1.prems" have p: "leaves_caches p" and m: "diagnosticCaches m = registry"
    "store m = objects" "next_ref m = n"
    by (simp_all add: caches_kept_def)
  have step: "caches_kept registry objects n (resume h p r m)" for r
    using resume_caches_kept [OF p, of m h r] m by simp
  show ?case
  proof (cases "settled p")
    case True
    have "caches_kept registry objects n (run h (resume h p Resolve_void m) rs)"
      using True step by (rule "1.IH"(1))
    then show ?thesis using True by (simp only: run_settled)
  next
    case False
    show ?thesis
    proof (cases rs)
      case Nil
      have "run h (Awaiting p, m) [] = (Awaiting p, m)"
        using False by (rule run_replies(1))
      with "1.prems" Nil show ?thesis by (simp only:)
    next
      case (Cons r rs')
      have "caches_kept registry objects n (run h (resume h p r m) rs')"
        using False Cons step by (rule "1.IH"(2))
      moreover have "run h (Awaiting p, m) (r # rs') = run h (resume h p r m) rs'"
        using False by (rule run_replies(2))
      ultimately show ?thesis using Cons by (simp only:)
    qed
  qed
next
  case (2 h m rs)
  then show ?case by (simp only: run.simps)
next
  case (3 h e m rs)
  then show ?case by (simp only: run.simps)
qed

lemma startForFolder_enter:
  assumes "\<not> js_has (clients m) (getFolderKey folder)"
    and "getFolderKey folder \<notin> pendingStarts m"
  shows "startForFolder folder m =
           (Awaiting (Start_Enable folder),
            m\<lparr>pendingStarts := insert (getFolderKey folder) (pendingStarts m),
              calls := calls m @ [ShouldEnableForFolder folder]\<rparr>)"
  using assms by (simp add: startForFolder_def emit_def)

lemma run_declined:
  assumes "\<not> js_has (clients m) (getFolderKey folder)"
    and "getFolderKey folder \<notin> pendingStarts m"
  shows "run h (startForFolder folder m) [Resolve_bool False] =
           (Returned,
            m\<lparr>calls := calls m @ [ShouldEnableForFolder folder, Log (skipping_message folder)]\<rparr>)"
  using assms
  by (simp add: startForFolder_enter after_shouldEnableForFolder_def emit_def
        startForFolder_finally_def Diff_insert_absorb)

lemma run_unavailable:
  assumes "\<not> js_has (clients m) (getFolderKey folder)"
    and "getFolderKey folder \<notin> pendingStarts m"
  shows "run h (startForFolder folder m) [Resolve_bool True, Resolve_client None] =
           (Returned, m\<lparr>calls := calls m @ [ShouldEnableForFolder folder, CreateClient folder]\<rparr>)"
  using assms
  by (simp add: startForFolder_enter after_shouldEnableForFolder_def after_createClient_def
        emit_def startForFolder_finally_def Diff_insert_absorb)

lemma run_to_handshake:
  assumes "\<not> js_has (clients m) (getFolderKey folder)"
    and "getFolderKey folder \<notin> pendingStarts m"
  shows "run h (startForFolder folder m) [Resolve_bool True, Resolve_client (Some client)] =
           (Awaiting (Start_Handshake folder client),
            m\<lparr>clients := js_set (getFolderKey folder) client (clients m),
              pendingStarts := insert (getFolderKey folder) (pendingStarts m),
              calls := calls m @ [ShouldEnableForFolder folder, CreateClient folder,
                                  Start client]\<rparr>)"
  using assms
  by (simp add: startForFolder_enter after_shouldEnableForFolder_def after_createClient_def
        emit_def)

lemma run_started:
  assumes "\<not> js_has (clients m) (getFolderKey folder)"
    and "getFolderKey folder \<notin> pendingStarts m"
  shows "run h (startForFolder folder m)
           ([Resolve_bool True, Resolve_client (Some client), Resolve_void]
              @ replicate (length (opened_documents h folder)) Resolve_void) =
           (Returned,
            m\<lparr>clients := js_set (getFolderKey folder) client (clients m),
              diagnosticCaches := js_set (getFolderKey folder) (next_ref m) (diagnosticCaches m),
              store := (store m)(next_ref m := js_empty),
              next_ref := Suc (next_ref m),
              calls := calls m @ [ShouldEnableForFolder folder, CreateClient folder, Start client]
                         @ map (SendDidOpen client) (opened_documents h folder)
                         @ [OnStatusUpdate, Log (started_message folder)]\<rparr>)"
proof -
  let ?m2 = "m\<lparr>clients := js_set (getFolderKey folder) client (clients m),
              pendingStarts := insert (getFolderKey folder) (pendingStarts m),
              calls := calls m @ [ShouldEnableForFolder folder, CreateClient folder,
                                  Start client]\<rparr>"
  have "run h (startForFolder folder m)
           ([Resolve_bool True, Resolve_client (Some client)]
              @ (Resolve_void # replicate (length (opened_documents h folder)) Resolve_void)) =
        run h (Awaiting (Start_Handshake folder client), ?m2)
           (Resolve_void # replicate (length (opened_documents h folder)) Resolve_void)"
    unfolding run_append [symmetric] run_to_handshake [OF assms] ..
  also have "\<dots> = run h (afterStart h client folder ?m2)
                      (replicate (length (opened_documents h folder)) Resolve_void)"
    by (simp add: after_start_def)
  also have "\<dots> = (Returned,
            m\<lparr>clients := js_set (getFolderKey folder) client (clients m),
              diagnosticCaches := js_set (getFolderKey folder) (next_ref m) (diagnosticCaches m),
              store := (store m)(next_ref m := js_empty),
              next_ref := Suc (next_ref m),
              calls := calls m @ [ShouldEnableForFolder folder, CreateClient folder, Start client]
                         @ map (SendDidOpen client) (opened_documents h folder)
                         @ [OnStatusUpdate, Log (started_message folder)]\<rparr>)"
    using assms(2)
    by (simp add: afterStart_def Let_def stretch_run opened_documents_def
          Diff_insert_absorb)
  finally show ?thesis by simp
qed

lemma run_after_handshake:
  assumes "\<not> js_has (clients m) (getFolderKey folder)"
    and "getFolderKey folder \<notin> pendingStarts m"
  shows "caches_kept (js_set (getFolderKey folder) (next_ref m) (diagnosticCaches m))
           ((store m)(next_ref m := js_empty)) (Suc (next_ref m))
           (run h (startForFolder folder m)
              ([Resolve_bool True, Resolve_client (Some client), Resolve_void] @ rs))"
proof -
  let ?m2 = "m\<lparr>clients := js_set (getFolderKey folder) client (clients m),
              pendingStarts := insert (getFolderKey folder) (pendingStarts m),
              calls := calls m @ [ShouldEnableForFolder folder, CreateClient folder,
                                  Start client]\<rparr>"
  let ?m3 = "?m2\<lparr>store := (store m)(next_ref m := js_empty), next_ref := Suc (next_ref m),
           diagnosticCaches := js_set (getFolderKey folder) (next_ref m) (diagnosticCaches m)\<rparr>"
  have "run h (startForFolder folder m)
           ([Resolve_bool True, Resolve_client (Some client)] @ (Resolve_void # rs)) =
        run h (Awaiting (Start_Handshake folder client), ?m2) (Resolve_void # rs)"
    unfolding run_append [symmetric] run_to_handshake [OF assms] ..
  also have "\<dots> = run h (syncOpenDocuments_stretch h client folder (textDocuments h) ?m3) rs"
    by (simp add: after_start_def afterStart_def Let_def)
  finally have eq: "run h (startForFolder folder m)
              ([Resolve_bool True, Resolve_client (Some client), Resolve_void] @ rs) =
        run h (syncOpenDocuments_stretch h client folder (textDocuments h) ?m3) rs"
    by simp
  have "caches_kept (diagnosticCaches ?m3) (store ?m3) (next_ref ?m3)
          (syncOpenDocuments_stretch h client folder (textDocuments h) ?m3)"
    by (rule stretch_caches_kept)
  then have "caches_kept (js_set (getFolderKey folder) (next_ref m) (diagnosticCaches m))
           ((store m)(next_ref m := js_empty)) (Suc (next_ref m))
           (syncOpenDocuments_stretch h client folder (textDocuments h) ?m3)"
    by simp
  from run_caches_kept [OF this, of h rs] show ?thesis
    unfolding eq .
qed

lemma run_cut:
  assumes "\<not> js_has (clients m) (getFolderKey folder)"
    and "getFolderKey folder \<notin> pendingStarts m"
    and "opened_documents h folder = ds1 @ d # ds2"
  shows "run h (startForFolder folder m)
           ([Resolve_bool True, Resolve_client (Some client), Resolve_void]
              @ replicate (length ds1) Resolve_void @ [Reject e]) =
           (Awaiting (Start_OnError folder),
            m\<lparr>clients := js_delete (getFolderKey folder)
                           (js_set (getFolderKey folder) client (clients m)),
              watchers := js_delete (getFolderKey folder) (watchers m),
              diagnosticCaches := js_set (getFolderKey folder) (next_ref m) (diagnosticCaches m),
              store := (store m)(next_ref m := js_empty),
              next_ref := Suc (next_ref m),
              pendingStarts := insert (getFolderKey folder) (pendingStarts m),
              calls := calls m @ [ShouldEnableForFolder folder, CreateClient folder, Start client]
                         @ map (SendDidOpen client) (ds1 @ [d])
                         @ map Dispose (registered_watchers m (getFolderKey folder))
                         @ [Log (failed_log_message folder e),
                            OnError (failed_message folder) folder]\<rparr>)"
proof -
  let ?m2 = "m\<lparr>clients := js_set (getFolderKey folder) client (clients m),
              pendingStarts := insert (getFolderKey folder) (pendingStarts m),
              calls := calls m @ [ShouldEnableForFolder folder, CreateClient folder,
                                  Start client]\<rparr>"
  let ?m3 = "?m2\<lparr>store := (store m)(next_ref m := js_empty), next_ref := Suc (next_ref m),
           diagnosticCaches := js_set (getFolderKey folder) (next_ref m) (diagnosticCaches m)\<rparr>"
  from assms(3) have "filter (belongs_to h folder) (textDocuments h) = ds1 @ d # ds2"
    by (simp add: opened_documents_def)
  from stretch_run_upto [OF this, of client ?m3] obtain rest where
    upto: "run h (syncOpenDocuments_stretch h client folder (textDocuments h) ?m3)
             (replicate (length ds1) Resolve_void) =
           (Awaiting (Start_Sync folder client rest),
            ?m3\<lparr>calls := calls ?m3 @ map (SendDidOpen client) (ds1 @ [d])\<rparr>)"
    by blast
  have "run h (startForFolder folder m)
           ([Resolve_bool True, Resolve_client (Some client)]
              @ (Resolve_void # replicate (length ds1) Resolve_void @ [Reject e])) =
        run h (Awaiting (Start_Handshake folder client), ?m2)
           (Resolve_void # replicate (length ds1) Resolve_void @ [Reject e])"
    unfolding run_append [symmetric] run_to_handshake [OF assms(1,2)] ..
  also have "\<dots> = run h (syncOpenDocuments_stretch h client folder (textDocuments h) ?m3)
                      (replicate (length ds1) Resolve_void @ [Reject e])"
    by (simp add: after_start_def afterStart_def Let_def)
  also have "\<dots> = run h (run h (syncOpenDocuments_stretch h client folder (textDocuments h) ?m3)
                      (replicate (length ds1) Resolve_void)) [Reject e]"
    by (simp only: run_append)
  also have "\<dots> = (Awaiting (Start_OnError folder),
            m\<lparr>clients := js_delete (getFolderKey folder)
                           (js_set (getFolderKey folder) client (clients m)),
              watchers := js_delete (getFolderKey folder) (watchers m),
              diagnosticCaches := js_set (getFolderKey folder) (next_ref m) (diagnosticCaches m),
              store := (store m)(next_ref m := js_empty),
              next_ref := Suc (next_ref m),
              pendingStarts := insert (getFolderKey folder) (pendingStarts m),
              calls := calls m @ [ShouldEnableForFolder folder, CreateClient folder, Start client]
                         @ map (SendDidOpen client) (ds1 @ [d])
                         @ map Dispose (registered_watchers m (getFolderKey folder))
                         @ [Log (failed_log_message folder e),
                            OnError (failed_message folder) folder]\<rparr>)"
    unfolding upto
    by (simp add: after_sendNotification_def after_syncOpenDocuments_def after_afterStart_def
          startForFolder_catch_eq registered_watchers_def)
  finally show ?thesis by simp
qed

lemma refs_allocated_less:
  "refs_allocated m \<Longrightarrow> js_get (diagnosticCaches m) k = Some r \<Longrightarrow> r < next_ref m"
  by (auto simp: refs_allocated_def js_get_entries list_all_iff dest!: map_of_SomeD)

lemma no_OnStatusUpdate:
  "filter (\<lambda>c. c = OnStatusUpdate) (map (SendDidOpen client) ds) = []"
  "filter (\<lambda>c. c = OnStatusUpdate) (map Dispose ws) = []"
  by (induction ds; simp) (induction ws; simp)

text \<open>
  C2, as the claim states it, fails in its last part. The first folder has two visible
  Ruby documents. The enablement check answers true, the factory answers with a client,
  the client's handshake succeeds, and the notification for the first document is
  rejected. The call then runs its \<open>catch\<close> block and returns: the second document
  has not been announced, and the status callback has not been called.
\<close>

theorem rejected_notification_cuts_replay:
  "opened_documents example_host example_app = [example_a_rb, example_b_rb]
   \<and> fst example_replay_cut = Returned
   \<and> calls (snd example_replay_cut) =
       [ShouldEnableForFolder example_app, CreateClient example_app, Start (LanguageClient 1),
        SendDidOpen (LanguageClient 1) example_a_rb,
        Log (failed_log_message example_app ''write EPIPE''),
        OnError (failed_message example_app) example_app]
   \<and> SendDidOpen (LanguageClient 1) example_b_rb \<notin> set (calls (snd example_replay_cut))
   \<and> OnStatusUpdate \<notin> set (calls (snd example_replay_cut))"
  by (simp add: example_replay_cut_def opened_documents_def belongs_to_def start_steps
        example_data example_a_rb_def example_b_rb_def)

text \<open>
  C2, amended. A call of \<open>startForFolder\<close> that passes both checks, running alone. If
  the enablement check answers false, the call logs the skip and returns; the factory
  and the error callback are not called and nothing is registered. If the factory
  answers null, the call returns and has done nothing but its two questions. If the
  factory answers with a client, the call is suspended on the client's \<open>start\<close> with
  the client already registered under the key. Once that handshake has succeeded,
  whatever the later replies, the key's diagnostic cache is a newly allocated empty one
  (different from every cache registered before). The open notifications go out one at
  a time, in order, to the visible documents in a supported language that belong to a
  folder with this key, each after the one before it has been accepted. If all are
  accepted, the status callback is called after them and the call returns with the
  client registered. If one is rejected, no later document is announced, the status
  callback is not called, and the call is in its \<open>catch\<close> block, suspended on the
  error callback.
\<close>

theorem startForFolder_paths:
  assumes "\<not> js_has (clients m) (getFolderKey folder)"
    and "getFolderKey folder \<notin> pendingStarts m"
  shows
    "run h (startForFolder folder m) [Resolve_bool False] =
       (Returned,
        m\<lparr>calls := calls m @ [ShouldEnableForFolder folder, Log (skipping_message folder)]\<rparr>)
     \<and> run h (startForFolder folder m) [Resolve_bool True, Resolve_client None] =
       (Returned, m\<lparr>calls := calls m @ [ShouldEnableForFolder folder, CreateClient folder]\<rparr>)
     \<and> (case run h (startForFolder folder m) [Resolve_bool True, Resolve_client (Some client)] of
          (st, m') \<Rightarrow>
            st = Awaiting (Start_Handshake folder client)
            \<and> js_get (clients m') (getFolderKey folder) = Some client
            \<and> calls m' =
                calls m @ [ShouldEnableForFolder folder, CreateClient folder, Start client])
     \<and> (case run h (startForFolder folder m)
                ([Resolve_bool True, Resolve_client (Some client), Resolve_void] @ rs) of
          (st, m') \<Rightarrow>
            js_get (diagnosticCaches m') (getFolderKey folder) = Some (next_ref m)
            \<and> store m' (next_ref m) = js_empty
            \<and> (refs_allocated m \<longrightarrow>
                 (\<forall>k r. js_get (diagnosticCaches m) k = Some r \<longrightarrow> r \<noteq> next_ref m)))
     \<and> (case run h (startForFolder folder m)
                ([Resolve_bool True, Resolve_client (Some client), Resolve_void]
                   @ replicate (length (opened_documents h folder)) Resolve_void) of
          (st, m') \<Rightarrow>
            st = Returned
            \<and> js_get (clients m') (getFolderKey folder) = Some client
            \<and> js_get (diagnosticCaches m') (getFolderKey folder) = Some (next_ref m)
            \<and> store m' (next_ref m) = js_empty
            \<and> calls m' =
                calls m @ [ShouldEnableForFolder folder, CreateClient folder, Start client]
                  @ map (SendDidOpen client) (opened_documents h folder)
                  @ [OnStatusUpdate, Log (started_message folder)]
            \<and> pendingStarts m' = pendingStarts m)
     \<and> (opened_documents h folder = ds1 @ d # ds2 \<longrightarrow>
          (case run h (startForFolder folder m)
                  ([Resolve_bool True, Resolve_client (Some client), Resolve_void]
                     @ replicate (length ds1) Resolve_void @ [Reject e]) of
             (st, m') \<Rightarrow>
               st = Awaiting (Start_OnError folder)
               \<and> calls m' =
                   calls m @ [ShouldEnableForFolder folder, CreateClient folder, Start client]
                     @ map (SendDidOpen client) (ds1 @ [d])
                     @ map Dispose (registered_watchers m (getFolderKey folder))
                     @ [Log (failed_log_message folder e), OnError (failed_message folder) folder]
               \<and> filter (\<lambda>c. c = OnStatusUpdate) (calls m') =
                   filter (\<lambda>c. c = OnStatusUpdate) (calls m)))"
proof (intro conjI impI)
  show "run h (startForFolder folder m) [Resolve_bool False] =
       (Returned,
        m\<lparr>calls := calls m @ [ShouldEnableForFolder folder, Log (skipping_message folder)]\<rparr>)"
    by (rule run_declined [OF assms])
  show "run h (startForFolder folder m) [Resolve_bool True, Resolve_client None] =
       (Returned, m\<lparr>calls := calls m @ [ShouldEnableForFolder folder, CreateClient folder]\<rparr>)"
    by (rule run_unavailable [OF assms])
  show "case run h (startForFolder folder m) [Resolve_bool True, Resolve_client (Some client)] of
          (st, m') \<Rightarrow>
            st = Awaiting (Start_Handshake folder client)
            \<and> js_get (clients m') (getFolderKey folder) = Some client
            \<and> calls m' =
                calls m @ [ShouldEnableForFolder folder, CreateClient folder, Start client]"
    unfolding run_to_handshake [OF assms] by (simp add: js_get_set)
  have fresh: "refs_allocated m \<longrightarrow>
                 (\<forall>k r. js_get (diagnosticCaches m) k = Some r \<longrightarrow> r \<noteq> next_ref m)"
    using refs_allocated_less [of m] by blast
  show "case run h (startForFolder folder m)
                ([Resolve_bool True, Resolve_client (Some client), Resolve_void] @ rs) of
          (st, m') \<Rightarrow>
            js_get (diagnosticCaches m') (getFolderKey folder) = Some (next_ref m)
            \<and> store m' (next_ref m) = js_empty
            \<and> (refs_allocated m \<longrightarrow>
                 (\<forall>k r. js_get (diagnosticCaches m) k = Some r \<longrightarrow> r \<noteq> next_ref m))"
    using run_after_handshake [OF assms, of h client rs] fresh
    by (cases "run h (startForFolder folder m)
                ([Resolve_bool True, Resolve_client (Some client), Resolve_void] @ rs)")
       (simp add: caches_kept_def js_get_set)
  show "case run h (startForFolder folder m)
                ([Resolve_bool True, Resolve_client (Some client), Resolve_void]
                   @ replicate (length (opened_documents h folder)) Resolve_void) of
          (st, m') \<Rightarrow>
            st = Returned
            \<and> js_get (clients m') (getFolderKey folder) = Some client
            \<and> js_get (diagnosticCaches m') (getFolderKey folder) = Some (next_ref m)
            \<and> store m' (next_ref m) = js_empty
            \<and> calls m' =
                calls m @ [ShouldEnableForFolder folder, CreateClient folder, Start client]
                  @ map (SendDidOpen client) (opened_documents h folder)
                  @ [OnStatusUpdate, Log (started_message folder)]
            \<and> pendingStarts m' = pendingStarts m"
    unfolding run_started [OF assms] by (simp add: js_get_set)
next
  assume "opened_documents h folder = ds1 @ d # ds2"
  from run_cut [OF assms this, of client e]
  show "case run h (startForFolder folder m)
                  ([Resolve_bool True, Resolve_client (Some client), Resolve_void]
                     @ replicate (length ds1) Resolve_void @ [Reject e]) of
             (st, m') \<Rightarrow>
               st = Awaiting (Start_OnError folder)
               \<and> calls m' =
                   calls m @ [ShouldEnableForFolder folder, CreateClient folder, Start client]
                     @ map (SendDidOpen client) (ds1 @ [d])
                     @ map Dispose (registered_watchers m (getFolderKey folder))
                     @ [Log (failed_log_message folder e), OnError (failed_message folder) folder]
               \<and> filter (\<lambda>c. c = OnStatusUpdate) (calls m') =
                   filter (\<lambda>c. c = OnStatusUpdate) (calls m)"
    by (simp add: no_OnStatusUpdate)
qed

lemma example_opened:
  "opened_documents example_host example_app =
     [\<lparr>doc_uri = ''file:///workspace/rails-app/a.rb'', languageId = ''ruby''\<rparr>,
      \<lparr>doc_uri = ''file:///workspace/rails-app/b.rb'', languageId = ''ruby''\<rparr>]"
  by (simp add: opened_documents_def example_host_def belongs_to_def example_app_def
        example_tool_def getFolderKey_def)

lemma example_manager_eq:
  "example_manager =
     \<lparr>clients = [], diagnosticCaches = [Some (''file:///workspace/rails-app'', 0)],
      watchers = [], pendingStarts = {}, store = (\<lambda>r. []), next_ref = 1, calls = []\<rparr>"
  by (simp add: example_manager_def getDiagnosticCacheForFolder_def new_ClientManager_def
        js_empty_def example_app_def getFolderKey_def fun_eq_iff)

theorem startForFolder_paths_witness:
  "\<not> js_has (clients example_manager) (getFolderKey example_app)
   \<and> getFolderKey example_app \<notin> pendingStarts example_manager
   \<and> refs_allocated example_manager
   \<and> js_get (diagnosticCaches example_manager) (getFolderKey example_app) = Some 0
   \<and> run example_host (startForFolder example_app example_manager) [Resolve_bool False] =
       (Returned,
        example_manager\<lparr>calls := [ShouldEnableForFolder example_app,
                                  Log (skipping_message example_app)]\<rparr>)
   \<and> run example_host (startForFolder example_app example_manager)
         [Resolve_bool True, Resolve_client None] =
       (Returned,
        example_manager\<lparr>calls := [ShouldEnableForFolder example_app, CreateClient example_app]\<rparr>)
   \<and> (case run example_host (startForFolder example_app example_manager)
              [Resolve_bool True, Resolve_client (Some (LanguageClient 1))] of
        (st, m') \<Rightarrow>
          st = Awaiting (Start_Handshake example_app (LanguageClient 1))
          \<and> js_get (clients m') (getFolderKey example_app) = Some (LanguageClient 1))
   \<and> (case run example_host (startForFolder example_app example_manager)
              [Resolve_bool True, Resolve_client (Some (LanguageClient 1)), Resolve_void] of
        (st, m') \<Rightarrow>
          js_get (diagnosticCaches m') (getFolderKey example_app) = Some 1
          \<and> store m' 1 = js_empty)
   \<and> (case run example_host (startForFolder example_app example_manager)
              [Resolve_bool True, Resolve_client (Some (LanguageClient 1)), Resolve_void,
               Resolve_void, Resolve_void] of
        (st, m') \<Rightarrow>
          st = Returned
          \<and> js_get (clients m') (getFolderKey example_app) = Some (LanguageClient 1)
          \<and> js_get (diagnosticCaches m') (getFolderKey example_app) = Some 1
          \<and> store m' 1 = js_empty
          \<and> calls m' =
              [ShouldEnableForFolder example_app, CreateClient example_app,
               Start (LanguageClient 1),
               SendDidOpen (LanguageClient 1)
                 \<lparr>doc_uri = ''file:///workspace/rails-app/a.rb'', languageId = ''ruby''\<rparr>,
               SendDidOpen (LanguageClient 1)
                 \<lparr>doc_uri = ''file:///workspace/rails-app/b.rb'', languageId = ''ruby''\<rparr>,
               OnStatusUpdate, Log (started_message example_app)]
          \<and> pendingStarts m' = {})
   \<and> opened_documents example_host example_app =
       [\<lparr>doc_uri = ''file:///workspace/rails-app/a.rb'', languageId = ''ruby''\<rparr>]
         @ \<lparr>doc_uri = ''file:///workspace/rails-app/b.rb'', languageId = ''ruby''\<rparr> # []
   \<and> (case run example_host (startForFolder example_app example_manager)
              [Resolve_bool True, Resolve_client (Some (LanguageClient 1)), Resolve_void,
               Resolve_void, Reject ''write EPIPE''] of
        (st, m') \<Rightarrow>
          st = Awaiting (Start_OnError example_app)
          \<and> calls m' =
              [ShouldEnableForFolder example_app, CreateClient example_app,
               Start (LanguageClient 1),
               SendDidOpen (LanguageClient 1)
                 \<lparr>doc_uri = ''file:///workspace/rails-app/a.rb'', languageId = ''ruby''\<rparr>,
               SendDidOpen (LanguageClient 1)
                 \<lparr>doc_uri = ''file:///workspace/rails-app/b.rb'', languageId = ''ruby''\<rparr>,
               Log (failed_log_message example_app ''write EPIPE''),
               OnError (failed_message example_app) example_app])"
proof -
  have h1: "\<not> js_has (clients example_manager) (getFolderKey example_app)"
    by (simp add: example_manager_eq js_has_def)
  have h2: "getFolderKey example_app \<notin> pendingStarts example_manager"
    by (simp add: example_manager_eq)
  have h3: "refs_allocated example_manager"
    by (simp add: example_manager_eq refs_allocated_def)
  have h4: "js_get (diagnosticCaches example_manager) (getFolderKey example_app) = Some 0"
    by (simp add: example_manager_eq example_app_def getFolderKey_def)
  have h5: "opened_documents example_host example_app =
       [\<lparr>doc_uri = ''file:///workspace/rails-app/a.rb'', languageId = ''ruby''\<rparr>]
         @ \<lparr>doc_uri = ''file:///workspace/rails-app/b.rb'', languageId = ''ruby''\<rparr> # []"
    by (simp add: example_opened)
  have n: "next_ref example_manager = 1" "calls example_manager = []"
    "pendingStarts example_manager = {}"
    "registered_watchers example_manager (getFolderKey example_app) = []"
    by (simp_all add: example_manager_eq registered_watchers_def)
  note th = startForFolder_paths
    [OF h1 h2, where h = example_host and client = "LanguageClient 1" and rs = "[]"
       and ?ds1.0 = "[\<lparr>doc_uri = ''file:///workspace/rails-app/a.rb'', languageId = ''ruby''\<rparr>]"
       and d = "\<lparr>doc_uri = ''file:///workspace/rails-app/b.rb'', languageId = ''ruby''\<rparr>"
       and ?ds2.0 = "[]" and e = "''write EPIPE''"]
  note c1 = th [THEN conjunct1]
  note c2 = th [THEN conjunct2, THEN conjunct1]
  note c3 = th [THEN conjunct2, THEN conjunct2, THEN conjunct1]
  note c4 = th [THEN conjunct2, THEN conjunct2, THEN conjunct2, THEN conjunct1]
  note c5 = th [THEN conjunct2, THEN conjunct2, THEN conjunct2, THEN conjunct2, THEN conjunct1]
  note c6 = th [THEN conjunct2, THEN conjunct2, THEN conjunct2, THEN conjunct2, THEN conjunct2,
                THEN mp, OF h5]
  have r: "replicate (length (opened_documents example_host example_app)) Resolve_void =
             [Resolve_void, Resolve_void]"
    by (simp add: example_opened)
  show ?thesis
    using h1 h2 h3 h4 h5 c1 c2 c3 c4 c5 c6
    by (simp add: n r example_opened split: prod.splits)
qed

subsection \<open>Single flight\<close>

lemma run_guard_step: "guard_step (Some k) P sm \<Longrightarrow> guard_step (Some k) P (run h sm rs)"
proof (induction h sm rs rule: run.induct)
  case (1 h p m rs)
  from "1.prems" have k: "start_key p = Some k" and P: "pendingStarts m = P"
    by (simp_all add: guard_step_def)
  have step: "guard_step (Some k) P (resume h p r m)" for r
    using resume_guard [of p m h r] k P by simp
  show ?case
  proof (cases "settled p")
    case True
    have "guard_step (Some k) P (run h (resume h p Resolve_void m) rs)"
      using True step by (rule "1.IH"(1))
    then show ?thesis using True by (simp only: run_settled)
  next
    case False
    show ?thesis
    proof (cases rs)
      case Nil
      have "run h (Awaiting p, m) [] = (Awaiting p, m)"
        using False by (rule run_replies(1))
      with "1.prems" Nil show ?thesis by (simp only:)
    next
      case (Cons r rs')
      have "guard_step (Some k) P (run h (resume h p r m) rs')"
        using False Cons step by (rule "1.IH"(2))
      moreover have "run h (Awaiting p, m) (r # rs') = run h (resume h p r m) rs'"
        using False by (rule run_replies(2))
      ultimately show ?thesis using Cons by (simp only:)
    qed
  qed
next
  case (2 h m rs)
  then show ?case by (simp only: run.simps)
next
  case (3 h e m rs)
  then show ?case by (simp only: run.simps)
qed

lemma run_guard:
  assumes "start_key p = Some k"
  shows "case run h (Awaiting p, m) rs of
           (Awaiting p', m') \<Rightarrow> start_key p' = Some k \<and> pendingStarts m' = pendingStarts m
         | (_, m') \<Rightarrow> pendingStarts m' = pendingStarts m - {k}"
proof -
  have "guard_step (Some k) (pendingStarts m) (Awaiting p, m)"
    using assms by (simp add: guard_step_def)
  from run_guard_step [OF this, of h rs] show ?thesis
    unfolding guard_step_def
    by (cases "run h (Awaiting p, m) rs"; cases "fst (run h (Awaiting p, m) rs)") simp_all
qed

lemma startForFolder_registered:
  "js_has (clients m) (getFolderKey folder) \<Longrightarrow> startForFolder folder m = (Returned, m)"
  by (simp add: startForFolder_def Let_def)

lemma startForFolder_pending:
  "getFolderKey folder \<in> pendingStarts m \<Longrightarrow> startForFolder folder m = (Returned, m)"
  by (simp add: startForFolder_def Let_def)

lemma startForFolder_flight:
  assumes "\<not> js_has (clients m) (getFolderKey folder)"
    and "getFolderKey folder \<notin> pendingStarts m"
  shows "case run h (startForFolder folder m) rs of
           (Awaiting p, m') \<Rightarrow>
             pendingStarts m' = insert (getFolderKey folder) (pendingStarts m)
             \<and> startForFolder folder m' = (Returned, m')
         | (_, m') \<Rightarrow> pendingStarts m' = pendingStarts m"
proof -
  let ?m0 = "m\<lparr>pendingStarts := insert (getFolderKey folder) (pendingStarts m),
               calls := calls m @ [ShouldEnableForFolder folder]\<rparr>"
  have "case run h (Awaiting (Start_Enable folder), ?m0) rs of
           (Awaiting p', m') \<Rightarrow>
             start_key p' = Some (getFolderKey folder) \<and> pendingStarts m' = pendingStarts ?m0
         | (_, m') \<Rightarrow> pendingStarts m' = pendingStarts ?m0 - {getFolderKey folder}"
    by (rule run_guard) simp
  then show ?thesis
    unfolding startForFolder_enter [OF assms] using assms(2)
    by (auto split: prod.splits status.splits simp: startForFolder_pending)
qed

lemma spawn_Returned [simp]: "spawn ts (Returned, m) = \<lparr>manager = m, tasks = ts\<rparr>"
  by (simp add: spawn_def)

lemma spawn_Awaiting [simp]: "spawn ts (Awaiting p, m) = \<lparr>manager = m, tasks = ts @ [p]\<rparr>"
  by (simp add: spawn_def)

lemma fire_start_in_flight:
  assumes "guard_inv s" and "getFolderKey folder \<in> set (starting (tasks s))"
  shows "fire h (Call_startForFolder folder) s = s"
proof -
  from assms have "getFolderKey folder \<in> pendingStarts (manager s)"
    by (simp add: guard_inv_def)
  then show ?thesis by (simp add: startForFolder_pending)
qed

lemma filter_key_absent:
  "\<not> js_has es k \<Longrightarrow> filter (\<lambda>e. fst e = k) (js_entries es) = []"
  by (induction es k rule: js_get.induct) (auto simp: js_has_def)

lemma started_once:
  assumes "\<not> js_has (clients m) (getFolderKey folder)"
    and "getFolderKey folder \<notin> pendingStarts m"
  shows "case run h (startForFolder folder m)
                ([Resolve_bool True, Resolve_client (Some client), Resolve_void]
                   @ replicate (length (opened_documents h folder)) Resolve_void) of
           (st, m') \<Rightarrow>
             st = Returned
             \<and> startForFolder folder m' = (Returned, m')
             \<and> filter is_CreateClient (calls m') =
                 filter is_CreateClient (calls m) @ [CreateClient folder]
             \<and> filter (\<lambda>e. fst e = getFolderKey folder) (js_entries (clients m')) =
                 [(getFolderKey folder, client)]"
  unfolding run_started [OF assms] using assms(1)
  by (simp add: startForFolder_registered js_has_set js_entries_set_new filter_key_absent
        o_def)

lemma second_call_absorbed:
  "fire h (Call_startForFolder folder) (fire h (Call_startForFolder folder) s) =
     fire h (Call_startForFolder folder) s"
proof (cases "js_has (clients (manager s)) (getFolderKey folder)
              \<or> getFolderKey folder \<in> pendingStarts (manager s)")
  case True
  then have "startForFolder folder (manager s) = (Returned, manager s)"
    using startForFolder_registered startForFolder_pending by blast
  then show ?thesis by simp
next
  case False
  let ?m0 = "(manager s)\<lparr>pendingStarts := insert (getFolderKey folder) (pendingStarts (manager s)),
               calls := calls (manager s) @ [ShouldEnableForFolder folder]\<rparr>"
  have "startForFolder folder ?m0 = (Returned, ?m0)"
    by (rule startForFolder_pending) simp
  with False show ?thesis
    by (simp add: startForFolder_enter)
qed

text \<open>
  C1. \<open>startForFolder\<close> called for a key that has a registered client, or that is in the
  guard set, returns at once: no call on a collaborator, the manager unchanged. Called
  for any other key, it puts the key into the guard set in its synchronous prefix, so the
  key is there when the call is first suspended (on the enablement check). Whatever calls
  are interleaved, at whichever \<open>await\<close> the methods are suspended, and however their
  promises are answered, the guard set is exactly the set of keys that have a start
  attempt in flight, one attempt each; so a call for a key whose attempt is in flight
  changes nothing. A second call issued right after a first one is absorbed: whatever
  follows, the manager and its suspended methods develop as if the call had been made
  once. For a call running alone, whatever the replies: while it is suspended the key is
  in the guard set and a second call is a no-op, and once it has returned or thrown the
  guard set is as before the call. When the attempt succeeds, a further call is a no-op,
  the factory has been called once, and the table has one entry for the key.
\<close>

theorem startForFolder_single_flight:
  "(js_has (clients m1) (getFolderKey folder) \<longrightarrow> startForFolder folder m1 = (Returned, m1))
   \<and> (getFolderKey folder \<in> pendingStarts m2 \<longrightarrow> startForFolder folder m2 = (Returned, m2))
   \<and> (\<not> js_has (clients m) (getFolderKey folder) \<and> getFolderKey folder \<notin> pendingStarts m \<longrightarrow>
        (case startForFolder folder m of
           (st, m') \<Rightarrow>
             st = Awaiting (Start_Enable folder)
             \<and> pendingStarts m' = insert (getFolderKey folder) (pendingStarts m)
             \<and> calls m' = calls m @ [ShouldEnableForFolder folder])
        \<and> (case run h (startForFolder folder m) rs of
             (Awaiting p, m') \<Rightarrow>
               pendingStarts m' = insert (getFolderKey folder) (pendingStarts m)
               \<and> startForFolder folder m' = (Returned, m')
           | (_, m') \<Rightarrow> pendingStarts m' = pendingStarts m)
        \<and> (case run h (startForFolder folder m)
                    ([Resolve_bool True, Resolve_client (Some client), Resolve_void]
                       @ replicate (length (opened_documents h folder)) Resolve_void) of
             (st, m') \<Rightarrow>
               st = Returned
               \<and> startForFolder folder m' = (Returned, m')
               \<and> filter is_CreateClient (calls m') =
                   filter is_CreateClient (calls m) @ [CreateClient folder]
               \<and> filter (\<lambda>e. fst e = getFolderKey folder) (js_entries (clients m')) =
                   [(getFolderKey folder, client)]))
   \<and> fires ((h, Call_startForFolder folder) # (h, Call_startForFolder folder) # acts2) s =
       fires ((h, Call_startForFolder folder) # acts2) s
   \<and> guard_inv (fires acts new_system)
   \<and> (getFolderKey folder \<in> set (starting (tasks (fires acts new_system))) \<longrightarrow>
        fire h (Call_startForFolder folder) (fires acts new_system) = fires acts new_system)"
proof (intro conjI impI)
  show "startForFolder folder m1 = (Returned, m1)"
    if "js_has (clients m1) (getFolderKey folder)"
    using that by (rule startForFolder_registered)
  show "startForFolder folder m2 = (Returned, m2)"
    if "getFolderKey folder \<in> pendingStarts m2"
    using that by (rule startForFolder_pending)
  show "fires ((h, Call_startForFolder folder) # (h, Call_startForFolder folder) # acts2) s =
       fires ((h, Call_startForFolder folder) # acts2) s"
    by (simp only: fires.simps second_call_absorbed)
  show "guard_inv (fires acts new_system)"
    by (rule guard_inv_fires [OF guard_inv_new])
  show "fire h (Call_startForFolder folder) (fires acts new_system) = fires acts new_system"
    if "getFolderKey folder \<in> set (starting (tasks (fires acts new_system)))"
    using guard_inv_fires [OF guard_inv_new] that by (rule fire_start_in_flight)
next
  assume "\<not> js_has (clients m) (getFolderKey folder) \<and> getFolderKey folder \<notin> pendingStarts m"
  then have a: "\<not> js_has (clients m) (getFolderKey folder)"
    and b: "getFolderKey folder \<notin> pendingStarts m"
    by simp_all
  show "case startForFolder folder m of
           (st, m') \<Rightarrow>
             st = Awaiting (Start_Enable folder)
             \<and> pendingStarts m' = insert (getFolderKey folder) (pendingStarts m)
             \<and> calls m' = calls m @ [ShouldEnableForFolder folder]"
    by (simp add: startForFolder_enter [OF a b])
  show "case run h (startForFolder folder m) rs of
             (Awaiting p, m') \<Rightarrow>
               pendingStarts m' = insert (getFolderKey folder) (pendingStarts m)
               \<and> startForFolder folder m' = (Returned, m')
           | (_, m') \<Rightarrow> pendingStarts m' = pendingStarts m"
    by (rule startForFolder_flight [OF a b])
  show "case run h (startForFolder folder m)
                    ([Resolve_bool True, Resolve_client (Some client), Resolve_void]
                       @ replicate (length (opened_documents h folder)) Resolve_void) of
             (st, m') \<Rightarrow>
               st = Returned
               \<and> startForFolder folder m' = (Returned, m')
               \<and> filter is_CreateClient (calls m') =
                   filter is_CreateClient (calls m) @ [CreateClient folder]
               \<and> filter (\<lambda>e. fst e = getFolderKey folder) (js_entries (clients m')) =
                   [(getFolderKey folder, client)]"
    by (rule started_once [OF a b])
qed

lemmas system_steps =
  new_system_def deliver_def registerWatchers_def stopAll_def stopAll_loop_def
  after_stop_in_stopAll_def js_next_def js_clear_def cleanupAllWatchers_def
  cleanupAllWatchers_from.simps

lemma example_overtaken_state:
  "tasks (fires example_overtaken new_system) = [Start_AfterStart example_tool Fulfilled]"
  "calls (manager (fires example_overtaken new_system)) =
     [ShouldEnableForFolder example_tool, CreateClient example_tool, Start (LanguageClient 2),
      SendDidOpen (LanguageClient 2)
        \<lparr>doc_uri = ''file:///workspace/cli-tool/main.rb'', languageId = ''ruby''\<rparr>,
      Log ''Stopping all language servers...'', Stop (LanguageClient 2),
      Dispose (Disposable 3), OnStatusUpdate]"
  "js_entries (diagnosticCaches (manager (fires example_overtaken new_system))) = []"
  "js_entries (clients (manager (fires example_overtaken new_system))) = []"
  "pendingStarts (manager (fires example_overtaken new_system)) = {getFolderKey example_tool}"
  by (simp_all add: example_overtaken_def start_steps example_data system_steps)

theorem startForFolder_single_flight_witness:
  "js_has (clients (new_ClientManager\<lparr>clients := [Some (getFolderKey example_app, LanguageClient 1)]\<rparr>))
      (getFolderKey example_app)
   \<and> startForFolder example_app
        (new_ClientManager\<lparr>clients := [Some (getFolderKey example_app, LanguageClient 1)]\<rparr>) =
      (Returned, new_ClientManager\<lparr>clients := [Some (getFolderKey example_app, LanguageClient 1)]\<rparr>)
   \<and> getFolderKey example_app \<in> pendingStarts (new_ClientManager\<lparr>pendingStarts := {getFolderKey example_app}\<rparr>)
   \<and> startForFolder example_app (new_ClientManager\<lparr>pendingStarts := {getFolderKey example_app}\<rparr>) =
      (Returned, new_ClientManager\<lparr>pendingStarts := {getFolderKey example_app}\<rparr>)
   \<and> \<not> js_has (clients new_ClientManager) (getFolderKey example_app)
   \<and> getFolderKey example_app \<notin> pendingStarts new_ClientManager
   \<and> (case startForFolder example_app new_ClientManager of
        (st, m') \<Rightarrow>
          st = Awaiting (Start_Enable example_app)
          \<and> pendingStarts m' = insert (getFolderKey example_app) (pendingStarts new_ClientManager)
          \<and> calls m' = calls new_ClientManager @ [ShouldEnableForFolder example_app])
   \<and> run example_host (startForFolder example_app new_ClientManager) [Resolve_bool True] =
        (Awaiting (Start_Create example_app),
         new_ClientManager\<lparr>pendingStarts := {getFolderKey example_app},
            calls := [ShouldEnableForFolder example_app, CreateClient example_app]\<rparr>)
   \<and> (case run example_host (startForFolder example_app new_ClientManager) [Resolve_bool True] of
        (Awaiting p, m') \<Rightarrow>
          pendingStarts m' = insert (getFolderKey example_app) (pendingStarts new_ClientManager)
          \<and> startForFolder example_app m' = (Returned, m')
      | (_, m') \<Rightarrow> pendingStarts m' = pendingStarts new_ClientManager)
   \<and> (case run example_host (startForFolder example_app new_ClientManager)
               ([Resolve_bool True, Resolve_client (Some (LanguageClient 1)), Resolve_void]
                  @ replicate (length (opened_documents example_host example_app)) Resolve_void) of
        (st, m') \<Rightarrow>
          st = Returned
          \<and> startForFolder example_app m' = (Returned, m')
          \<and> filter is_CreateClient (calls m') =
              filter is_CreateClient (calls new_ClientManager) @ [CreateClient example_app]
          \<and> filter (\<lambda>e. fst e = getFolderKey example_app) (js_entries (clients m')) =
              [(getFolderKey example_app, LanguageClient 1)])
   \<and> fires ((example_host, Call_startForFolder example_tool)
              # (example_host, Call_startForFolder example_tool)
              # [(example_host, Deliver 0 (Resolve_bool True))]) new_system =
       fires ((example_host, Call_startForFolder example_tool)
              # [(example_host, Deliver 0 (Resolve_bool True))]) new_system
   \<and> guard_inv (fires example_overtaken new_system)
   \<and> tasks (fires example_overtaken new_system) = [Start_AfterStart example_tool Fulfilled]
   \<and> calls (manager (fires example_overtaken new_system)) =
       [ShouldEnableForFolder example_tool, CreateClient example_tool, Start (LanguageClient 2),
        SendDidOpen (LanguageClient 2)
          \<lparr>doc_uri = ''file:///workspace/cli-tool/main.rb'', languageId = ''ruby''\<rparr>,
        Log ''Stopping all language servers...'', Stop (LanguageClient 2),
        Dispose (Disposable 3), OnStatusUpdate]
   \<and> js_entries (diagnosticCaches (manager (fires example_overtaken new_system))) = []
   \<and> pendingStarts (manager (fires example_overtaken new_system)) = {getFolderKey example_tool}
   \<and> js_entries (clients (manager (fires example_overtaken new_system))) = []
   \<and> getFolderKey example_tool \<in> set (starting (tasks (fires example_overtaken new_system)))
   \<and> fire example_host (Call_startForFolder example_tool) (fires example_overtaken new_system) =
        fires example_overtaken new_system"
proof -
  let ?m1 = "new_ClientManager\<lparr>clients := [Some (getFolderKey example_app, LanguageClient 1)]\<rparr>"
  let ?m2 = "new_ClientManager\<lparr>pendingStarts := {getFolderKey example_app}\<rparr>"
  have h1: "js_has (clients ?m1) (getFolderKey example_app)"
    by (simp add: js_has_def)
  have h2: "getFolderKey example_app \<in> pendingStarts ?m2"
    by simp
  have h3a: "\<not> js_has (clients new_ClientManager) (getFolderKey example_app)"
    by (simp add: new_ClientManager_def js_has_def js_empty_def)
  have h3b: "getFolderKey example_app \<notin> pendingStarts new_ClientManager"
    by (simp add: new_ClientManager_def)
  have h4: "getFolderKey example_tool \<in> set (starting (tasks (fires example_overtaken new_system)))"
    by (simp add: example_overtaken_state)
  have n: "pendingStarts new_ClientManager = {}" "calls new_ClientManager = []"
    by (simp_all add: new_ClientManager_def)
  note th = startForFolder_single_flight
    [where ?m1.0 = ?m1 and ?m2.0 = ?m2 and m = new_ClientManager and folder = example_app
       and h = example_host and rs = "[Resolve_bool True]" and client = "LanguageClient 1"]
  note th2 = startForFolder_single_flight
    [where folder = example_tool and h = example_host and acts = example_overtaken
       and ?acts2.0 = "[(example_host, Deliver 0 (Resolve_bool True))]" and s = new_system]
  note c1 = th [THEN conjunct1, THEN mp, OF h1]
  note c2 = th [THEN conjunct2, THEN conjunct1, THEN mp, OF h2]
  note c3 = th [THEN conjunct2, THEN conjunct2, THEN conjunct1, THEN mp, OF conjI [OF h3a h3b]]
  note c4 = th2 [THEN conjunct2, THEN conjunct2, THEN conjunct2, THEN conjunct1]
  note c5 = th2 [THEN conjunct2, THEN conjunct2, THEN conjunct2, THEN conjunct2, THEN conjunct1]
  note c6 = th2 [THEN conjunct2, THEN conjunct2, THEN conjunct2, THEN conjunct2, THEN conjunct2,
                 THEN mp, OF h4]
  have e1: "run example_host (startForFolder example_app new_ClientManager) [Resolve_bool True] =
          (Awaiting (Start_Create example_app),
           new_ClientManager\<lparr>pendingStarts := {getFolderKey example_app},
              calls := [ShouldEnableForFolder example_app, CreateClient example_app]\<rparr>)"
    using h3a h3b by (simp add: startForFolder_enter after_shouldEnableForFolder_def emit_def n)
  show ?thesis
    by (intro conjI h1 h2 h3a h3b h4 c1 c2 c4 c5 c6 e1 example_overtaken_state
          c3 [THEN conjunct1] c3 [THEN conjunct2, THEN conjunct1]
          c3 [THEN conjunct2, THEN conjunct2])
qed

subsection \<open>A start attempt that fails\<close>

lemma js_entries_delete:
  "js_wf es \<Longrightarrow> js_entries (js_delete k es) = filter (\<lambda>e. fst e \<noteq> k) (js_entries es)"
proof (induction k es rule: js_delete.induct)
  case (1 k)
  then show ?case by simp
next
  case (2 k es)
  then show ?case by (simp add: js_wf_def)
next
  case (3 k k' v es)
  show ?case
  proof (cases "k' = k")
    case True
    with 3 have "k \<notin> fst ` set (js_entries es)" by (simp add: js_wf_def)
    then have "filter (\<lambda>e. fst e \<noteq> k) (js_entries es) = js_entries es"
      by (auto simp: filter_id_conv)
    with True show ?thesis by simp
  next
    case False
    with 3 show ?thesis by (simp add: js_wf_def)
  qed
qed

lemma run_failure:
  assumes "\<not> js_has (clients m) (getFolderKey folder)"
    and "getFolderKey folder \<notin> pendingStarts m"
  shows "run h (startForFolder folder m) (replies_until fp client @ [Reject e]) =
           (Awaiting (Start_OnError folder),
            m\<lparr>clients := js_delete (getFolderKey folder)
                          (case fp of Handshake_throws \<Rightarrow> js_set (getFolderKey folder) client (clients m)
                                    | _ \<Rightarrow> clients m),
              watchers := js_delete (getFolderKey folder) (watchers m),
              pendingStarts := insert (getFolderKey folder) (pendingStarts m),
              calls := calls m @ calls_until fp folder client
                         @ map Dispose (registered_watchers m (getFolderKey folder))
                         @ [Log (failed_log_message folder e),
                            OnError (failed_message folder) folder]\<rparr>)"
  using assms
  by (cases fp)
     (simp_all add: startForFolder_enter after_shouldEnableForFolder_def after_createClient_def
        after_start_def startForFolder_catch_eq emit_def registered_watchers_def)

lemma no_OnError_before:
  "filter is_OnError (calls_until fp folder client) = []"
  "filter is_OnError (map Dispose ws) = []"
  by (cases fp; simp) (induction ws; simp)

lemma run_failure_reported:
  assumes "\<not> js_has (clients m) (getFolderKey folder)"
    and "getFolderKey folder \<notin> pendingStarts m"
  shows "run h (startForFolder folder m) (replies_until fp client @ [Reject e, r]) =
           ((case r of Reject e' \<Rightarrow> Threw e' | _ \<Rightarrow> Returned),
            m\<lparr>clients := js_delete (getFolderKey folder)
                          (case fp of Handshake_throws \<Rightarrow> js_set (getFolderKey folder) client (clients m)
                                    | _ \<Rightarrow> clients m),
              watchers := js_delete (getFolderKey folder) (watchers m),
              calls := calls m @ calls_until fp folder client
                         @ map Dispose (registered_watchers m (getFolderKey folder))
                         @ [Log (failed_log_message folder e),
                            OnError (failed_message folder) folder]\<rparr>)"
proof -
  have "run h (startForFolder folder m) ((replies_until fp client @ [Reject e]) @ [r]) =
        run h (run h (startForFolder folder m) (replies_until fp client @ [Reject e])) [r]"
    by (simp only: run_append)
  also have "\<dots> = ((case r of Reject e' \<Rightarrow> Threw e' | _ \<Rightarrow> Returned),
            m\<lparr>clients := js_delete (getFolderKey folder)
                          (case fp of Handshake_throws \<Rightarrow> js_set (getFolderKey folder) client (clients m)
                                    | _ \<Rightarrow> clients m),
              watchers := js_delete (getFolderKey folder) (watchers m),
              calls := calls m @ calls_until fp folder client
                         @ map Dispose (registered_watchers m (getFolderKey folder))
                         @ [Log (failed_log_message folder e),
                            OnError (failed_message folder) folder]\<rparr>)"
    unfolding run_failure [OF assms(1,2)] using assms(2)
    by (cases r) (simp_all add: after_onError_def startForFolder_finally_def Diff_insert_absorb)
  finally show ?thesis by simp
qed

lemma rolled_back_clients:
  assumes "\<not> js_has es k"
  shows "js_entries (js_delete k (case fp of Handshake_throws \<Rightarrow> js_set k c es | _ \<Rightarrow> es)) =
         js_entries es"
  using assms by (cases fp) (simp_all add: js_entries_delete_absent js_entries_delete_set_new)

lemma example_keys:
  "getFolderKey example_app = ''file:///workspace/rails-app''"
  "getFolderKey example_tool = ''file:///workspace/cli-tool''"
  by (simp_all add: getFolderKey_def example_app_def example_tool_def)

text \<open>
  C3, as the claim states it, fails in its last part. The second folder has a client
  and both folders have watchers. \<open>startForFolder\<close> is called for the first folder;
  the enablement check answers true, the factory throws, and the promise of the error
  callback is rejected. The rollback has happened, the error callback has been called
  once and the guard set is empty again, but the call has thrown the callback's error
  to its caller.
\<close>

theorem onError_rejection_escapes:
  "fst example_report_fails = Threw ''window disposed''
   \<and> filter is_OnError (calls (snd example_report_fails)) =
       [OnError (failed_message example_app) example_app]
   \<and> js_entries (clients (snd example_report_fails)) =
       [(getFolderKey example_tool, LanguageClient 2)]
   \<and> js_entries (watchers (snd example_report_fails)) =
       [(getFolderKey example_tool, [Disposable 3])]
   \<and> pendingStarts (snd example_report_fails) = {}"
  by (simp add: example_report_fails_def example_watched_def start_steps example_data)

text \<open>
  C3, amended. A call of \<open>startForFolder\<close> that passes both checks, running alone, in
  which the enablement check, the factory or the start handshake throws. The call is
  then suspended on the error callback, which has been called once, with a message that
  contains the folder's name. When the callback's promise is settled, the call returns
  if the promise was fulfilled, and throws the callback's error if it was rejected. In
  both cases the connection table has the entries it had before the call; the watcher
  set of the key has been disposed, handle by handle, and removed, and the sets of all
  other keys are as before; the error callback has been called once; the diagnostic
  caches and the guard set are as before the call.
\<close>

theorem startForFolder_failure_rollback:
  assumes "\<not> js_has (clients m) (getFolderKey folder)"
    and "getFolderKey folder \<notin> pendingStarts m"
    and "js_wf (watchers m)"
  shows
    "(case run h (startForFolder folder m) (replies_until fp client @ [Reject e]) of
        (st, m') \<Rightarrow>
          st = Awaiting (Start_OnError folder)
          \<and> filter is_OnError (calls m') =
              filter is_OnError (calls m) @ [OnError (failed_message folder) folder])
     \<and> (case run h (startForFolder folder m) (replies_until fp client @ [Reject e, r]) of
        (st, m') \<Rightarrow>
          st = (case r of Reject e' \<Rightarrow> Threw e' | _ \<Rightarrow> Returned)
          \<and> js_entries (clients m') = js_entries (clients m)
          \<and> js_entries (watchers m') =
              filter (\<lambda>w. fst w \<noteq> getFolderKey folder) (js_entries (watchers m))
          \<and> calls m' =
              calls m @ calls_until fp folder client
                @ map Dispose (registered_watchers m (getFolderKey folder))
                @ [Log (failed_log_message folder e), OnError (failed_message folder) folder]
          \<and> filter is_OnError (calls m') =
              filter is_OnError (calls m) @ [OnError (failed_message folder) folder]
          \<and> diagnosticCaches m' = diagnosticCaches m
          \<and> store m' = store m
          \<and> pendingStarts m' = pendingStarts m)
     \<and> (\<exists>a b. failed_message folder = a @ name folder @ b)"
proof (intro conjI)
  show "case run h (startForFolder folder m) (replies_until fp client @ [Reject e]) of
        (st, m') \<Rightarrow>
          st = Awaiting (Start_OnError folder)
          \<and> filter is_OnError (calls m') =
              filter is_OnError (calls m) @ [OnError (failed_message folder) folder]"
    unfolding run_failure [OF assms(1,2)] by (simp add: no_OnError_before)
  show "case run h (startForFolder folder m) (replies_until fp client @ [Reject e, r]) of
        (st, m') \<Rightarrow>
          st = (case r of Reject e' \<Rightarrow> Threw e' | _ \<Rightarrow> Returned)
          \<and> js_entries (clients m') = js_entries (clients m)
          \<and> js_entries (watchers m') =
              filter (\<lambda>w. fst w \<noteq> getFolderKey folder) (js_entries (watchers m))
          \<and> calls m' =
              calls m @ calls_until fp folder client
                @ map Dispose (registered_watchers m (getFolderKey folder))
                @ [Log (failed_log_message folder e), OnError (failed_message folder) folder]
          \<and> filter is_OnError (calls m') =
              filter is_OnError (calls m) @ [OnError (failed_message folder) folder]
          \<and> diagnosticCaches m' = diagnosticCaches m
          \<and> store m' = store m
          \<and> pendingStarts m' = pendingStarts m"
    unfolding run_failure_reported [OF assms(1,2)]
    using assms(1,3)
    by (simp add: no_OnError_before rolled_back_clients js_entries_delete)
  show "\<exists>a b. failed_message folder = a @ name folder @ b"
    by (rule exI [of _ "''Failed to start Standard Ruby Language Server for '' @ [CHR 0x22]"],
        rule exI [of _ "[CHR 0x22]"])
       (simp add: failed_message_def quoted_def)
qed

theorem startForFolder_failure_rollback_witness:
  "\<not> js_has (clients example_watched) (getFolderKey example_app)
   \<and> getFolderKey example_app \<notin> pendingStarts example_watched
   \<and> js_wf (watchers example_watched)
   \<and> (case run example_host (startForFolder example_app example_watched)
               [Resolve_bool True, Resolve_client (Some (LanguageClient 1)),
                Reject ''spawn ENOENT'', Resolve_void] of
        (st, m') \<Rightarrow>
          st = Returned
          \<and> js_entries (clients m') = [(getFolderKey example_tool, LanguageClient 2)]
          \<and> js_entries (watchers m') = [(getFolderKey example_tool, [Disposable 3])]
          \<and> calls m' =
              [ShouldEnableForFolder example_app, CreateClient example_app,
               Start (LanguageClient 1), Dispose (Disposable 1), Dispose (Disposable 2),
               Log (failed_log_message example_app ''spawn ENOENT''),
               OnError (failed_message example_app) example_app]
          \<and> filter is_OnError (calls m') = [OnError (failed_message example_app) example_app]
          \<and> diagnosticCaches m' = []
          \<and> pendingStarts m' = {})
   \<and> (case run example_host (startForFolder example_app example_watched)
               [Resolve_bool True, Reject ''spawn ENOENT'', Reject ''window disposed''] of
        (st, m') \<Rightarrow>
          st = Threw ''window disposed''
          \<and> js_entries (clients m') = [(getFolderKey example_tool, LanguageClient 2)]
          \<and> js_entries (watchers m') = [(getFolderKey example_tool, [Disposable 3])]
          \<and> filter is_OnError (calls m') = [OnError (failed_message example_app) example_app]
          \<and> pendingStarts m' = {})"
proof -
  have h1: "\<not> js_has (clients example_watched) (getFolderKey example_app)"
    by (simp add: example_watched_def js_has_def example_keys)
  have h2: "getFolderKey example_app \<notin> pendingStarts example_watched"
    by (simp add: example_watched_def new_ClientManager_def)
  have h3: "js_wf (watchers example_watched)"
    by (simp add: example_watched_def js_wf_def example_keys)
  have v: "js_entries (clients example_watched) = [(getFolderKey example_tool, LanguageClient 2)]"
    "filter (\<lambda>w. fst w \<noteq> getFolderKey example_app) (js_entries (watchers example_watched)) =
       [(getFolderKey example_tool, [Disposable 3])]"
    "registered_watchers example_watched (getFolderKey example_app) = [Disposable 1, Disposable 2]"
    "calls example_watched = []" "diagnosticCaches example_watched = []"
    "pendingStarts example_watched = {}"
    by (simp_all add: example_watched_def new_ClientManager_def js_empty_def example_keys
          registered_watchers_def)
  show ?thesis
    using h1 h2 h3
      startForFolder_failure_rollback [OF h1 h2 h3, of example_host Handshake_throws
        "LanguageClient 1" "''spawn ENOENT''" Resolve_void, THEN conjunct2, THEN conjunct1]
      startForFolder_failure_rollback [OF h1 h2 h3, of example_host Factory_throws
        "LanguageClient 1" "''spawn ENOENT''" "Reject ''window disposed''",
        THEN conjunct2, THEN conjunct1]
    by (simp add: v split: prod.splits)
qed

subsection \<open>A started client left behind\<close>

text \<open>
  C4. A run that leaves a started client behind. The folder has two visible Ruby
  documents; the enablement check answers true, the factory answers with a client, the
  client's start handshake succeeds, and the first open notification is rejected. The
  \<open>catch\<close> block then deletes the key from the connection table, and the call returns
  once the error callback has completed. The client's \<open>start\<close> has been called and
  has succeeded, its \<open>stop\<close> has not been called, and the table no longer holds it.
\<close>

theorem rollback_orphans_started_client:
  "fst (run example_host (startForFolder example_app new_ClientManager)
          [Resolve_bool True, Resolve_client (Some (LanguageClient 1)), Resolve_void]) =
     Awaiting (Start_Sync example_app (LanguageClient 1)
       [\<lparr>doc_uri = ''file:///workspace/cli-tool/main.rb'', languageId = ''ruby''\<rparr>,
        \<lparr>doc_uri = ''file:///workspace/rails-app/README.md'', languageId = ''markdown''\<rparr>,
        \<lparr>doc_uri = ''file:///workspace/rails-app/b.rb'', languageId = ''ruby''\<rparr>,
        \<lparr>doc_uri = ''file:///tmp/scratch.rb'', languageId = ''ruby''\<rparr>])
   \<and> (case run example_host (startForFolder example_app new_ClientManager)
               [Resolve_bool True, Resolve_client (Some (LanguageClient 1)), Resolve_void,
                Reject ''write EPIPE'', Resolve_void] of
        (st, m') \<Rightarrow>
          st = Returned
          \<and> js_get (clients m') (getFolderKey example_app) = None
          \<and> size_clients m' = 0
          \<and> calls m' =
              [ShouldEnableForFolder example_app, CreateClient example_app,
               Start (LanguageClient 1),
               SendDidOpen (LanguageClient 1)
                 \<lparr>doc_uri = ''file:///workspace/rails-app/a.rb'', languageId = ''ruby''\<rparr>,
               Log (failed_log_message example_app ''write EPIPE''),
               OnError (failed_message example_app) example_app]
          \<and> Start (LanguageClient 1) \<in> set (calls m')
          \<and> Stop (LanguageClient 1) \<notin> set (calls m'))"
  by (simp add: start_steps example_data size_clients_def js_size_def)

subsection \<open>The caches on the failure path\<close>

lemma catch_then_reply:
  "run h (startForFolder_catch folder e m) [r] =
     ((case r of Reject e' \<Rightarrow> Threw e' | _ \<Rightarrow> Returned),
      m\<lparr>clients := js_delete (getFolderKey folder) (clients m),
        watchers := js_delete (getFolderKey folder) (watchers m),
        pendingStarts := pendingStarts m - {getFolderKey folder},
        calls := calls m @ map Dispose (registered_watchers m (getFolderKey folder))
                   @ [Log (failed_log_message folder e), OnError (failed_message folder) folder]\<rparr>)"
  by (cases r) (simp_all add: startForFolder_catch_eq after_onError_def startForFolder_finally_def)

lemma run_Reject:
  assumes "p \<in> {Start_Enable folder, Start_Create folder, Start_Handshake folder client,
                 Start_Sync folder client docs}"
  shows "run h (resume h p (Reject e) m) rs = run h (startForFolder_catch folder e m) rs"
  using assms
  by (auto simp: after_shouldEnableForFolder_def after_createClient_def after_start_def
        after_sendNotification_def after_syncOpenDocuments_def after_afterStart_def)

lemma stopped_eq:
  assumes "js_get (clients m) (getFolderKey folder) = Some client"
  shows "run h (stopForFolder folder m) [Resolve_void] =
           (Returned,
            m\<lparr>clients := js_delete (getFolderKey folder) (clients m),
              diagnosticCaches := js_delete (getFolderKey folder) (diagnosticCaches m),
              watchers := js_delete (getFolderKey folder) (watchers m),
              calls := calls m @ [Log (stopping_message folder), Stop client]
                         @ map Dispose (registered_watchers m (getFolderKey folder))\<rparr>)"
  using assms
  by (simp add: stopForFolder_def after_stop_def Let_def cleanupWatchers_def emit_def
        registered_watchers_def js_delete_absent split: option.splits)

text \<open>
  C10. What the failure path of \<open>startForFolder\<close> leaves alone. Take the manager as it
  is when one of the awaited promises of a start attempt (the enablement check, the
  factory, the start handshake, an open notification) is rejected. When the call has run
  its \<open>catch\<close> and \<open>finally\<close> blocks, whatever the error callback answers, the
  registry of diagnostic caches and the cache objects themselves are as they were at the
  rejection: every key that had a cache still has the same cache with the same
  contents. Only the key's entries in the connection table and in the watcher registry,
  the guard set and the record of calls have changed. A successful \<open>stopForFolder\<close>, in
  contrast, leaves the key without a cache.
\<close>

theorem start_failure_keeps_caches:
  "(p \<in> {Start_Enable folder, Start_Create folder, Start_Handshake folder client,
          Start_Sync folder client docs} \<longrightarrow>
      (case run h (resume h p (Reject e) m) [r] of
         (st, m') \<Rightarrow>
           diagnosticCaches m' = diagnosticCaches m
           \<and> store m' = store m
           \<and> next_ref m' = next_ref m
           \<and> (\<forall>k cache. js_get (diagnosticCaches m) k = Some cache \<longrightarrow>
                 js_get (diagnosticCaches m') k = Some cache \<and> store m' cache = store m cache)
           \<and> clients m' = js_delete (getFolderKey folder) (clients m)
           \<and> watchers m' = js_delete (getFolderKey folder) (watchers m)
           \<and> pendingStarts m' = pendingStarts m - {getFolderKey folder}))
   \<and> (js_get (clients m2) (getFolderKey folder) = Some client2 \<and> js_wf (diagnosticCaches m2) \<longrightarrow>
       (case run h (stopForFolder folder m2) [Resolve_void] of
          (st, m') \<Rightarrow> st = Returned \<and> js_get (diagnosticCaches m') (getFolderKey folder) = None))"
proof (intro conjI impI)
  assume "p \<in> {Start_Enable folder, Start_Create folder, Start_Handshake folder client,
          Start_Sync folder client docs}"
  then have "run h (resume h p (Reject e) m) [r] = run h (startForFolder_catch folder e m) [r]"
    by (rule run_Reject)
  then show "case run h (resume h p (Reject e) m) [r] of
         (st, m') \<Rightarrow>
           diagnosticCaches m' = diagnosticCaches m
           \<and> store m' = store m
           \<and> next_ref m' = next_ref m
           \<and> (\<forall>k cache. js_get (diagnosticCaches m) k = Some cache \<longrightarrow>
                 js_get (diagnosticCaches m') k = Some cache \<and> store m' cache = store m cache)
           \<and> clients m' = js_delete (getFolderKey folder) (clients m)
           \<and> watchers m' = js_delete (getFolderKey folder) (watchers m)
           \<and> pendingStarts m' = pendingStarts m - {getFolderKey folder}"
    by (simp add: catch_then_reply)
next
  assume "js_get (clients m2) (getFolderKey folder) = Some client2 \<and> js_wf (diagnosticCaches m2)"
  then show "case run h (stopForFolder folder m2) [Resolve_void] of
          (st, m') \<Rightarrow> st = Returned \<and> js_get (diagnosticCaches m') (getFolderKey folder) = None"
    by (simp add: stopped_eq js_get_delete_same)
qed

theorem start_failure_keeps_caches_witness:
  "Start_Sync example_app (LanguageClient 1) [] \<in>
     {Start_Enable example_app, Start_Create example_app,
      Start_Handshake example_app (LanguageClient 1),
      Start_Sync example_app (LanguageClient 1) []}
   \<and> (case run example_host
               (resume example_host (Start_Sync example_app (LanguageClient 1) [])
                  (Reject ''write EPIPE'')
                  (example_running\<lparr>pendingStarts := {getFolderKey example_app}\<rparr>))
               [Resolve_void] of
        (st, m') \<Rightarrow>
          js_get (diagnosticCaches m') (getFolderKey example_app) = Some 0
          \<and> store m' 0 = [Some (''file:///workspace/rails-app/a.rb'', [''Style/StringLiterals''])]
          \<and> js_get (clients m') (getFolderKey example_app) = None
          \<and> js_get (watchers m') (getFolderKey example_app) = None
          \<and> pendingStarts m' = {})
   \<and> js_get (clients example_running) (getFolderKey example_app) = Some (LanguageClient 1)
   \<and> js_wf (diagnosticCaches example_running)
   \<and> (case run example_host (stopForFolder example_app example_running) [Resolve_void] of
        (st, m') \<Rightarrow> st = Returned \<and> js_get (diagnosticCaches m') (getFolderKey example_app) = None)"
proof -
  let ?m = "example_running\<lparr>pendingStarts := {getFolderKey example_app}\<rparr>"
  let ?p = "Start_Sync example_app (LanguageClient 1) []"
  have h1: "?p \<in> {Start_Enable example_app, Start_Create example_app,
      Start_Handshake example_app (LanguageClient 1), ?p}"
    by simp
  have h2: "js_get (clients example_running) (getFolderKey example_app) = Some (LanguageClient 1)
            \<and> js_wf (diagnosticCaches example_running)"
    by (simp add: example_running_def js_wf_def)
  note th = start_failure_keeps_caches
    [where p = ?p and folder = example_app and client = "LanguageClient 1" and docs = "[]"
       and h = example_host and e = "''write EPIPE''" and m = ?m and r = Resolve_void
       and ?m2.0 = example_running and ?client2.0 = "LanguageClient 1"]
  note c1 = th [THEN conjunct1, THEN mp, OF h1]
  note c2 = th [THEN conjunct2, THEN mp, OF h2]
  have v: "diagnosticCaches ?m = [Some (getFolderKey example_app, 0)]"
    "store ?m 0 = [Some (''file:///workspace/rails-app/a.rb'', [''Style/StringLiterals''])]"
    "clients ?m = [Some (getFolderKey example_app, LanguageClient 1)]"
    "watchers ?m = [Some (getFolderKey example_app, [Disposable 1, Disposable 2])]"
    "pendingStarts ?m = {getFolderKey example_app}"
    "store example_running 0 =
       [Some (''file:///workspace/rails-app/a.rb'', [''Style/StringLiterals''])]"
    by (simp_all add: example_running_def)
  show ?thesis
    using h1 h2 c1 c2 by (simp add: v split: prod.splits)
qed

section \<open>Every reachable manager is well-formed\<close>

lemma set_entries_js_set: "set (js_entries (js_set k v es)) \<subseteq> insert (k, v) (set (js_entries es))"
  by (induction k v es rule: js_set.induct) auto

lemma set_entries_js_delete: "set (js_entries (js_delete k es)) \<subseteq> set (js_entries es)"
  by (induction k es rule: js_delete.induct) auto

lemma js_wf_clear: "js_wf (js_clear es)"
  by (simp add: js_wf_def js_entries_clear)

lemma refs_allocated_alloc:
  assumes "refs_allocated m"
  shows "refs_allocated
           (m\<lparr>store := st, next_ref := Suc (next_ref m),
              diagnosticCaches := js_set k (next_ref m) (diagnosticCaches m)\<rparr>)"
proof -
  have "\<forall>x \<in> set (js_entries (js_set k (next_ref m) (diagnosticCaches m))).
          snd x < Suc (next_ref m)"
  proof
    fix x assume "x \<in> set (js_entries (js_set k (next_ref m) (diagnosticCaches m)))"
    with set_entries_js_set have "x = (k, next_ref m) \<or> x \<in> set (js_entries (diagnosticCaches m))"
      by fastforce
    with assms show "snd x < Suc (next_ref m)"
      by (auto simp: refs_allocated_def list_all_iff)
  qed
  then show ?thesis
    by (auto simp: refs_allocated_def list_all_iff)
qed

lemma cleanupAllWatchers_from_wf:
  "js_wf (watchers m) \<Longrightarrow> js_wf (watchers (cleanupAllWatchers_from i m))"
proof (induction i m rule: cleanupAllWatchers_from.induct)
  case (1 index m)
  show ?case
  proof (cases "js_next (watchers m) index")
    case None
    with 1 show ?thesis by (subst cleanupAllWatchers_from.simps) simp
  next
    case (Some a)
    obtain key ws index' where a: "a = ((key, ws), index')" by (cases a) auto
    with 1 Some show ?thesis
      by (subst cleanupAllWatchers_from.simps) (simp add: js_wf_delete)
  qed
qed

lemma wf_catch:
  assumes "wf_manager m"
  shows "wf_manager (snd (startForFolder_catch f e m))"
  using assms
  by (auto simp: wf_manager_def startForFolder_catch_eq js_wf_delete refs_allocated_def)

lemma wf_stretch:
  assumes "wf_manager m"
  shows "wf_manager (snd (syncOpenDocuments_stretch h c f docs m))"
proof -
  obtain o' m' where s: "syncOpenDocuments h c f docs m = (o', m')"
    by (cases "syncOpenDocuments h c f docs m")
  have "clients (snd (syncOpenDocuments h c f docs m)) = clients m"
    "diagnosticCaches (snd (syncOpenDocuments h c f docs m)) = diagnosticCaches m"
    "watchers (snd (syncOpenDocuments h c f docs m)) = watchers m"
    "next_ref (snd (syncOpenDocuments h c f docs m)) = next_ref m"
    by simp_all
  with s have "clients m' = clients m" "diagnosticCaches m' = diagnosticCaches m"
    "watchers m' = watchers m" "next_ref m' = next_ref m"
    by simp_all
  with assms s show ?thesis
    by (cases o') (simp_all add: syncOpenDocuments_stretch_def wf_manager_def refs_allocated_def)
qed

lemma wf_afterStart:
  assumes "wf_manager m"
  shows "wf_manager (snd (afterStart h c f m))"
proof -
  have "wf_manager (m\<lparr>store := (store m)(next_ref m := js_empty), next_ref := Suc (next_ref m),
           diagnosticCaches := js_set (getFolderKey f) (next_ref m) (diagnosticCaches m)\<rparr>)"
    using assms refs_allocated_alloc
      [where m = m and st = "(store m)(next_ref m := js_empty)" and k = "getFolderKey f"]
    by (simp add: wf_manager_def js_wf_set)
  then show ?thesis
    by (simp add: afterStart_def Let_def wf_stretch)
qed

lemma wf_stopAll_loop:
  assumes "wf_manager m"
  shows "wf_manager (snd (stopAll_loop i m))"
proof (cases "js_next (clients m) i")
  case None
  with assms show ?thesis
    by (simp add: stopAll_loop_def wf_manager_def cleanupAllWatchers_def
          cleanupAllWatchers_from_wf js_wf_clear refs_allocated_def js_entries_clear)
next
  case (Some a)
  obtain key c i' where "a = ((key, c), i')" by (cases a) auto
  with assms Some show ?thesis
    by (simp add: stopAll_loop_def wf_manager_def refs_allocated_def)
qed

lemma wf_resume:
  assumes "wf_manager m"
  shows "wf_manager (snd (resume h p r m))"
proof (cases p)
  case (Start_Enable f)
  with assms wf_catch [OF assms, of f] show ?thesis
    by (cases r) (auto simp: after_shouldEnableForFolder_def wf_manager_def refs_allocated_def)
next
  case (Start_Create f)
  with assms wf_catch [OF assms, of f] show ?thesis
    by (cases r)
       (auto simp: after_createClient_def wf_manager_def refs_allocated_def js_wf_set
             split: option.splits)
next
  case (Start_Handshake f c)
  with wf_catch [OF assms, of f] wf_afterStart [OF assms, of h c f] show ?thesis
    by (cases r) (auto simp: after_start_def)
next
  case (Start_Sync f c docs)
  with assms wf_stretch [OF assms, of h c f docs] show ?thesis
    by (cases r) (auto simp: after_sendNotification_def)
next
  case (Start_AfterSync f s)
  with assms show ?thesis
    by (cases s) (auto simp: after_syncOpenDocuments_def wf_manager_def refs_allocated_def)
next
  case (Start_AfterStart f s)
  with assms wf_catch [OF assms, of f] show ?thesis
    by (cases s) (auto simp: after_afterStart_def wf_manager_def refs_allocated_def)
next
  case (Start_OnError f)
  with assms show ?thesis
    by (cases r) (auto simp: after_onError_def wf_manager_def refs_allocated_def)
next
  case (Stop_Handshake f)
  have "wf_manager (cleanupWatchers (getFolderKey f)
          (m\<lparr>clients := js_delete (getFolderKey f) (clients m),
             diagnosticCaches := js_delete (getFolderKey f) (diagnosticCaches m)\<rparr>))"
    using assms set_entries_js_delete [of "getFolderKey f" "diagnosticCaches m"]
    by (auto simp: wf_manager_def js_wf_delete cleanupWatchers_watchers refs_allocated_def
          list_all_iff)
  with Stop_Handshake assms show ?thesis
    by (cases r) (auto simp: after_stop_def Let_def)
next
  case (StopAll_Handshake i k)
  have "wf_manager (m\<lparr>clients := js_delete k (clients m)\<rparr>)"
    using assms by (simp add: wf_manager_def js_wf_delete refs_allocated_def)
  from wf_stopAll_loop [OF this, of i] StopAll_Handshake assms show ?thesis
    by (cases r) (auto simp: after_stop_in_stopAll_def)
next
  case Notify_Send
  with assms show ?thesis
    by (cases r) (auto simp: after_notify_def)
qed

lemma wf_getDiagnosticCacheForFolder:
  assumes "wf_manager m"
  shows "wf_manager (snd (getDiagnosticCacheForFolder f m))"
  using assms refs_allocated_alloc
      [where m = m and st = "(store m)(next_ref m := js_empty)" and k = "getFolderKey f"]
  by (auto simp: getDiagnosticCacheForFolder_def Let_def wf_manager_def js_wf_set
        split: option.splits)

lemma wf_spawn: "wf_manager (snd sm) \<Longrightarrow> wf_manager (manager (spawn ts sm))"
  by (cases sm) (auto simp: spawn_def split: status.splits)

lemma wf_fire:
  assumes "wf_manager (manager s)"
  shows "wf_manager (manager (fire h a s))"
proof (cases a)
  case (Call_startForFolder f)
  with assms show ?thesis
    by (auto intro!: wf_spawn simp: startForFolder_def Let_def wf_manager_def refs_allocated_def)
next
  case (Call_stopForFolder f)
  with assms show ?thesis
    by (auto intro!: wf_spawn simp: stopForFolder_def Let_def wf_manager_def refs_allocated_def
          split: option.splits)
next
  case Call_stopAll
  have "wf_manager (emit (Log ''Stopping all language servers...'') (manager s))"
    using assms by (simp add: wf_manager_def refs_allocated_def)
  from wf_stopAll_loop [OF this, of 0] Call_stopAll show ?thesis
    by (auto intro!: wf_spawn simp: stopAll_def)
next
  case (Call_notifyDocumentOpenIfNeeded d)
  have "wf_manager (snd (notifyDocumentOpenIfNeeded h d (manager s)))"
  proof (cases "getWorkspaceFolder h (doc_uri d)")
    case None
    with assms show ?thesis by (simp add: notifyDocumentOpenIfNeeded_def)
  next
    case (Some f)
    obtain c m' where g: "getDiagnosticCacheForFolder f (manager s) = (c, m')"
      by (cases "getDiagnosticCacheForFolder f (manager s)")
    with wf_getDiagnosticCacheForFolder [OF assms, of f] have "wf_manager m'" by simp
    then have "wf_manager (emit x m')" for x
      by (simp add: wf_manager_def refs_allocated_def)
    with Some g assms \<open>wf_manager m'\<close> show ?thesis
      by (auto simp: notifyDocumentOpenIfNeeded_def split: option.splits)
  qed
  with Call_notifyDocumentOpenIfNeeded show ?thesis
    by (auto intro!: wf_spawn)
next
  case (Call_registerWatchers f ws)
  with assms show ?thesis
    by (simp add: registerWatchers_def wf_manager_def js_wf_set refs_allocated_def)
next
  case (Call_getDiagnosticCacheForFolder f)
  with assms show ?thesis by (simp add: wf_getDiagnosticCacheForFolder)
next
  case (Write_cache c u ds)
  with assms show ?thesis by (simp add: write_cache_def wf_manager_def refs_allocated_def)
next
  case (Deliver i r)
  show ?thesis
  proof (cases "i < length (tasks s)")
    case False
    with Deliver assms show ?thesis by (simp add: deliver_def)
  next
    case True
    obtain st m' where res: "resume h (tasks s ! i) r (manager s) = (st, m')"
      by (cases "resume h (tasks s ! i) r (manager s)")
    with wf_resume [OF assms, of h "tasks s ! i" r] have "wf_manager m'" by simp
    with Deliver True res show ?thesis
      by (cases st) (simp_all add: deliver_def)
  qed
qed

lemma wf_fires: "wf_manager (manager s) \<Longrightarrow> wf_manager (manager (fires acts s))"
  by (induction acts arbitrary: s) (auto simp: wf_fire)

lemma wf_new: "wf_manager (manager new_system)"
  by (simp add: new_system_def new_ClientManager_def wf_manager_def js_wf_def js_empty_def
        refs_allocated_def)

section \<open>Stopping a folder\<close>

lemma getDiagnosticCacheForFolder_absent:
  assumes "js_get (diagnosticCaches m) (getFolderKey folder) = None"
  shows "getDiagnosticCacheForFolder folder m =
           (next_ref m,
            m\<lparr>store := (store m)(next_ref m := js_empty), next_ref := Suc (next_ref m),
              diagnosticCaches := js_set (getFolderKey folder) (next_ref m) (diagnosticCaches m)\<rparr>)"
  using assms by (simp add: getDiagnosticCacheForFolder_def Let_def)

text \<open>
  C5. \<open>stopForFolder\<close> for a key with no registered client returns at once and changes
  nothing. For a key with a registered client, running alone with the stop handshake
  succeeding, it logs, calls the client's \<open>stop\<close>, and returns with the key absent from
  the connection table, from the registry of diagnostic caches and from the watcher
  registry, every handle of the key's watcher set disposed in order, and the entries of
  all other keys as before. A second \<open>stopForFolder\<close> then changes nothing, and
  \<open>getDiagnosticCacheForFolder\<close> for the key allocates a new empty cache, which is not
  the cache the key had before the stop. Every manager reached from a new one by calls
  of its methods, however interleaved, is well-formed as assumed here.
\<close>

theorem stopForFolder_idempotent:
  "(js_get (clients m1) (getFolderKey folder) = None \<longrightarrow> stopForFolder folder m1 = (Returned, m1))
   \<and> (js_get (clients m) (getFolderKey folder) = Some client \<and> wf_manager m \<longrightarrow>
       (case run h (stopForFolder folder m) [Resolve_void] of
          (st, m') \<Rightarrow>
            st = Returned
            \<and> js_get (clients m') (getFolderKey folder) = None
            \<and> js_get (diagnosticCaches m') (getFolderKey folder) = None
            \<and> js_get (watchers m') (getFolderKey folder) = None
            \<and> js_entries (clients m') =
                filter (\<lambda>e. fst e \<noteq> getFolderKey folder) (js_entries (clients m))
            \<and> js_entries (diagnosticCaches m') =
                filter (\<lambda>e. fst e \<noteq> getFolderKey folder) (js_entries (diagnosticCaches m))
            \<and> js_entries (watchers m') =
                filter (\<lambda>e. fst e \<noteq> getFolderKey folder) (js_entries (watchers m))
            \<and> calls m' =
                calls m @ [Log (stopping_message folder), Stop client]
                  @ map Dispose (registered_watchers m (getFolderKey folder))
            \<and> stopForFolder folder m' = (Returned, m')
            \<and> (case getDiagnosticCacheForFolder folder m' of
                 (cache, m'') \<Rightarrow>
                   cache = next_ref m
                   \<and> store m'' cache = js_empty
                   \<and> js_get (diagnosticCaches m'') (getFolderKey folder) = Some cache
                   \<and> (\<forall>old. js_get (diagnosticCaches m) (getFolderKey folder) = Some old \<longrightarrow>
                         cache \<noteq> old))))
   \<and> wf_manager (manager (fires acts new_system))"
proof (intro conjI impI)
  show "stopForFolder folder m1 = (Returned, m1)"
    if "js_get (clients m1) (getFolderKey folder) = None"
    using that by (simp add: stopForFolder_def)
  show "wf_manager (manager (fires acts new_system))"
    by (rule wf_fires [OF wf_new])
next
  assume "js_get (clients m) (getFolderKey folder) = Some client \<and> wf_manager m"
  then have reg: "js_get (clients m) (getFolderKey folder) = Some client"
    and wf: "js_wf (clients m)" "js_wf (diagnosticCaches m)" "js_wf (watchers m)"
      "refs_allocated m"
    by (simp_all add: wf_manager_def)
  let ?m' = "m\<lparr>clients := js_delete (getFolderKey folder) (clients m),
              diagnosticCaches := js_delete (getFolderKey folder) (diagnosticCaches m),
              watchers := js_delete (getFolderKey folder) (watchers m),
              calls := calls m @ [Log (stopping_message folder), Stop client]
                         @ map Dispose (registered_watchers m (getFolderKey folder))\<rparr>"
  have gone: "js_get (clients ?m') (getFolderKey folder) = None"
    "js_get (diagnosticCaches ?m') (getFolderKey folder) = None"
    "js_get (watchers ?m') (getFolderKey folder) = None"
    using wf by (simp_all add: js_get_delete_same)
  have again: "stopForFolder folder ?m' = (Returned, ?m')"
    using gone(1) by (simp add: stopForFolder_def)
  have fresh: "\<forall>old. js_get (diagnosticCaches m) (getFolderKey folder) = Some old \<longrightarrow>
                 next_ref m \<noteq> old"
    using refs_allocated_less [OF wf(4)] by blast
  have cache: "case getDiagnosticCacheForFolder folder ?m' of
                 (cache, m'') \<Rightarrow>
                   cache = next_ref m
                   \<and> store m'' cache = js_empty
                   \<and> js_get (diagnosticCaches m'') (getFolderKey folder) = Some cache
                   \<and> (\<forall>old. js_get (diagnosticCaches m) (getFolderKey folder) = Some old \<longrightarrow>
                         cache \<noteq> old)"
    unfolding getDiagnosticCacheForFolder_absent [OF gone(2)]
    using fresh by (simp add: js_get_set)
  have rest: "js_entries (clients ?m') =
                filter (\<lambda>e. fst e \<noteq> getFolderKey folder) (js_entries (clients m))"
    "js_entries (diagnosticCaches ?m') =
                filter (\<lambda>e. fst e \<noteq> getFolderKey folder) (js_entries (diagnosticCaches m))"
    "js_entries (watchers ?m') =
                filter (\<lambda>e. fst e \<noteq> getFolderKey folder) (js_entries (watchers m))"
    "calls ?m' = calls m @ [Log (stopping_message folder), Stop client]
                  @ map Dispose (registered_watchers m (getFolderKey folder))"
    using wf by (simp_all add: js_entries_delete)
  show "case run h (stopForFolder folder m) [Resolve_void] of
          (st, m') \<Rightarrow>
            st = Returned
            \<and> js_get (clients m') (getFolderKey folder) = None
            \<and> js_get (diagnosticCaches m') (getFolderKey folder) = None
            \<and> js_get (watchers m') (getFolderKey folder) = None
            \<and> js_entries (clients m') =
                filter (\<lambda>e. fst e \<noteq> getFolderKey folder) (js_entries (clients m))
            \<and> js_entries (diagnosticCaches m') =
                filter (\<lambda>e. fst e \<noteq> getFolderKey folder) (js_entries (diagnosticCaches m))
            \<and> js_entries (watchers m') =
                filter (\<lambda>e. fst e \<noteq> getFolderKey folder) (js_entries (watchers m))
            \<and> calls m' =
                calls m @ [Log (stopping_message folder), Stop client]
                  @ map Dispose (registered_watchers m (getFolderKey folder))
            \<and> stopForFolder folder m' = (Returned, m')
            \<and> (case getDiagnosticCacheForFolder folder m' of
                 (cache, m'') \<Rightarrow>
                   cache = next_ref m
                   \<and> store m'' cache = js_empty
                   \<and> js_get (diagnosticCaches m'') (getFolderKey folder) = Some cache
                   \<and> (\<forall>old. js_get (diagnosticCaches m) (getFolderKey folder) = Some old \<longrightarrow>
                         cache \<noteq> old))"
    unfolding stopped_eq [OF reg] prod.case
    by (intro conjI refl gone again cache rest)
qed

lemma example_running_wf: "wf_manager example_running"
  by (simp add: example_running_def wf_manager_def js_wf_def refs_allocated_def
        new_ClientManager_def js_empty_def)

theorem stopForFolder_idempotent_witness:
  "js_get (clients new_ClientManager) (getFolderKey example_app) = None
   \<and> stopForFolder example_app new_ClientManager = (Returned, new_ClientManager)
   \<and> js_get (clients example_running) (getFolderKey example_app) = Some (LanguageClient 1)
   \<and> wf_manager example_running
   \<and> js_get (diagnosticCaches example_running) (getFolderKey example_app) = Some 0
   \<and> (case run example_host (stopForFolder example_app example_running) [Resolve_void] of
        (st, m') \<Rightarrow>
          st = Returned
          \<and> js_get (clients m') (getFolderKey example_app) = None
          \<and> js_get (diagnosticCaches m') (getFolderKey example_app) = None
          \<and> js_get (watchers m') (getFolderKey example_app) = None
          \<and> size_clients m' = 0
          \<and> calls m' =
              [Log (stopping_message example_app), Stop (LanguageClient 1),
               Dispose (Disposable 1), Dispose (Disposable 2)]
          \<and> stopForFolder example_app m' = (Returned, m')
          \<and> (case getDiagnosticCacheForFolder example_app m' of
               (cache, m'') \<Rightarrow>
                 cache = 1 \<and> store m'' cache = js_empty
                 \<and> js_get (diagnosticCaches m'') (getFolderKey example_app) = Some cache))
   \<and> wf_manager (manager (fires example_interleaving new_system))"
proof -
  have h1: "js_get (clients new_ClientManager) (getFolderKey example_app) = None"
    by (simp add: new_ClientManager_def js_empty_def)
  have h2: "js_get (clients example_running) (getFolderKey example_app) = Some (LanguageClient 1)
            \<and> wf_manager example_running"
    by (simp add: example_running_wf) (simp add: example_running_def)
  have h3: "js_get (diagnosticCaches example_running) (getFolderKey example_app) = Some 0"
    by (simp add: example_running_def)
  note th = stopForFolder_idempotent
    [where ?m1.0 = new_ClientManager and folder = example_app and m = example_running
       and client = "LanguageClient 1" and h = example_host and acts = example_interleaving]
  note c1 = th [THEN conjunct1, THEN mp, OF h1]
  note c2 = th [THEN conjunct2, THEN conjunct1, THEN mp, OF h2]
  note c3 = th [THEN conjunct2, THEN conjunct2]
  have v: "next_ref example_running = 1" "calls example_running = []"
    "registered_watchers example_running (getFolderKey example_app) =
       [Disposable 1, Disposable 2]"
    "js_entries (clients example_running) = [(getFolderKey example_app, LanguageClient 1)]"
    by (simp_all add: example_running_def new_ClientManager_def registered_watchers_def)
  show ?thesis
    using h1 h2 h3 c1 c2 c3
    by (simp add: v size_clients_def js_size_def split: prod.splits)
qed

section \<open>Stopping all folders\<close>

lemma js_entries_tombs [simp]: "js_entries (replicate i None @ xs) = js_entries xs"
  by (induction i) simp_all

lemma js_entries_all_tombs [simp]: "js_entries (replicate i None) = []"
  using js_entries_tombs [of i "[]"] by simp

lemma js_next_tombs: "js_next (replicate i None @ xs) i = js_scan xs i"
  by (simp add: js_next_def)

lemma js_delete_tombs:
  "js_delete k (replicate i None @ Some (k, v) # xs) = replicate (Suc i) None @ xs"
  by (induction i) simp_all

lemma tombs_Suc: "replicate i None @ None # xs = replicate (Suc i) None @ xs"
  by (simp add: replicate_app_Cons_same)

lemma js_next_skip:
  "js_next (replicate i None @ None # xs) i = js_next (replicate i None @ None # xs) (Suc i)"
  by (simp add: js_next_def)

lemma clients_same: "clients m = cs \<Longrightarrow> m\<lparr>clients := cs\<rparr> = m"
  by auto

lemma watchers_same: "watchers m = ws \<Longrightarrow> m\<lparr>watchers := ws\<rparr> = m"
  by auto

lemma cleanupAllWatchers_from_tombs:
  assumes "watchers m = replicate i None @ xs"
  shows "cleanupAllWatchers_from i m =
           m\<lparr>calls := calls m @ dispose_calls (js_entries xs),
             watchers := replicate (i + length xs) None\<rparr>"
  using assms
proof (induction xs arbitrary: i m)
  case Nil
  then have "js_next (watchers m) i = None"
    by (simp add: js_next_def)
  moreover have "m\<lparr>watchers := replicate i None\<rparr> = m"
    using Nil by (simp add: watchers_same)
  ultimately show ?case
    by (subst cleanupAllWatchers_from.simps) (simp add: dispose_calls_def)
next
  case (Cons x xs)
  show ?case
  proof (cases x)
    case None
    with Cons.prems have w: "watchers m = replicate (Suc i) None @ xs"
      by (simp add: tombs_Suc)
    have "js_next (watchers m) i = js_next (watchers m) (Suc i)"
      unfolding Cons.prems None by (rule js_next_skip)
    then have "cleanupAllWatchers_from i m = cleanupAllWatchers_from (Suc i) m"
      by (subst cleanupAllWatchers_from.simps, subst (2) cleanupAllWatchers_from.simps) simp
    with Cons.IH [OF w] None show ?thesis by simp
  next
    case (Some a)
    obtain k ws where a: "a = (k, ws)" by (cases a)
    let ?m' = "m\<lparr>calls := calls m @ map Dispose ws, watchers := js_delete k (watchers m)\<rparr>"
    have nxt: "js_next (watchers m) i = Some ((k, ws), Suc i)"
      using js_next_tombs [of i "Some (k, ws) # xs"] Cons.prems Some a by simp
    have w: "watchers ?m' = replicate (Suc i) None @ xs"
      using Cons.prems Some a by (simp add: js_delete_tombs del: replicate_Suc)
    have "cleanupAllWatchers_from i m = cleanupAllWatchers_from (Suc i) ?m'"
      by (subst cleanupAllWatchers_from.simps) (simp add: nxt)
    with Cons.IH [OF w] Some a show ?thesis
      by (simp add: dispose_calls_def)
  qed
qed

lemma cleanupAllWatchers_eq:
  "cleanupAllWatchers m =
     m\<lparr>calls := calls m @ dispose_calls (js_entries (watchers m)),
       watchers := replicate (length (watchers m)) None\<rparr>"
  using cleanupAllWatchers_from_tombs [of m 0 "watchers m"]
  by (simp add: cleanupAllWatchers_def)

lemma stop_each_tombs:
  assumes "clients m = replicate i None @ xs"
  shows "stop_each (js_entries xs) m =
           m\<lparr>clients := replicate (i + length xs) None,
             calls := calls m @ stop_calls (js_entries xs)\<rparr>"
  using assms
proof (induction xs arbitrary: i m)
  case Nil
  have "m\<lparr>clients := replicate i None\<rparr> = m"
    using Nil by (simp add: clients_same)
  then show ?case by (simp add: stop_calls_def)
next
  case (Cons x xs)
  show ?case
  proof (cases x)
    case None
    with Cons.prems have "clients m = replicate (Suc i) None @ xs"
      by (simp add: tombs_Suc)
    from Cons.IH [OF this] None show ?thesis by simp
  next
    case (Some a)
    obtain k c where a: "a = (k, c)" by (cases a)
    let ?m' = "(emit (Stop c) m)\<lparr>clients := js_delete k (clients m)\<rparr>"
    have "clients ?m' = replicate (Suc i) None @ xs"
      using Cons.prems Some a by (simp add: js_delete_tombs del: replicate_Suc)
    from Cons.IH [OF this] Some a show ?thesis
      by (simp add: stop_calls_def emit_def)
  qed
qed

lemma stopAll_loop_run:
  assumes "clients m = replicate i None @ xs"
  shows "run h (stopAll_loop i m) (replicate (length (js_entries xs)) Resolve_void) =
           (Returned,
            cleanupAllWatchers
              (m\<lparr>clients := replicate (i + length xs) None,
                 diagnosticCaches := js_clear (diagnosticCaches m),
                 calls := calls m @ stop_calls (js_entries xs)\<rparr>))"
  using assms
proof (induction xs arbitrary: i m)
  case Nil
  then have "js_next (clients m) i = None"
    by (simp add: js_next_def)
  moreover have "m\<lparr>clients := replicate i None\<rparr> = m"
    using Nil by (simp add: clients_same)
  ultimately show ?case
    by (simp add: stopAll_loop_def stop_calls_def)
next
  case (Cons x xs)
  show ?case
  proof (cases x)
    case None
    with Cons.prems have c: "clients m = replicate (Suc i) None @ xs"
      by (simp add: tombs_Suc)
    have "js_next (clients m) i = js_next (clients m) (Suc i)"
      unfolding Cons.prems None by (rule js_next_skip)
    then have "stopAll_loop i m = stopAll_loop (Suc i) m"
      by (simp add: stopAll_loop_def)
    with Cons.IH [OF c] None show ?thesis by simp
  next
    case (Some a)
    obtain k c where a: "a = (k, c)" by (cases a)
    let ?m' = "(emit (Stop c) m)\<lparr>clients := js_delete k (clients m)\<rparr>"
    have nxt: "js_next (clients m) i = Some ((k, c), Suc i)"
      using js_next_tombs [of i "Some (k, c) # xs"] Cons.prems Some a by simp
    have c': "clients ?m' = replicate (Suc i) None @ xs"
      using Cons.prems Some a by (simp add: js_delete_tombs del: replicate_Suc)
    have "run h (stopAll_loop i m) (Resolve_void # replicate (length (js_entries xs)) Resolve_void) =
          run h (stopAll_loop (Suc i) ?m') (replicate (length (js_entries xs)) Resolve_void)"
      by (simp add: stopAll_loop_def nxt after_stop_in_stopAll_def)
    with Cons.IH [OF c'] Some a show ?thesis
      by (simp add: stop_calls_def emit_def)
  qed
qed

lemma stopAll_loop_run_upto:
  assumes "clients m = replicate i None @ xs"
    and "js_entries xs = es1 @ (k, c) # es2"
  shows "\<exists>j xs'. run h (stopAll_loop i m) (replicate (length es1) Resolve_void) =
           (Awaiting (StopAll_Handshake (Suc j) k),
            m\<lparr>clients := replicate j None @ Some (k, c) # xs',
              calls := calls m @ stop_calls es1 @ [Stop c]\<rparr>)
         \<and> js_entries xs' = es2"
  using assms
proof (induction xs arbitrary: i m es1)
  case Nil
  then show ?case by simp
next
  case (Cons x xs)
  show ?case
  proof (cases x)
    case None
    with Cons.prems have c: "clients m = replicate (Suc i) None @ xs"
      and e: "js_entries xs = es1 @ (k, c) # es2"
      by (simp_all add: tombs_Suc)
    have "js_next (clients m) i = js_next (clients m) (Suc i)"
      unfolding Cons.prems None by (rule js_next_skip)
    then have "stopAll_loop i m = stopAll_loop (Suc i) m"
      by (simp add: stopAll_loop_def)
    with Cons.IH [OF c e] show ?thesis by simp
  next
    case (Some a)
    obtain k' c' where a: "a = (k', c')" by (cases a)
    have nxt: "js_next (clients m) i = Some ((k', c'), Suc i)"
      using js_next_tombs [of i "Some (k', c') # xs"] Cons.prems Some a by simp
    show ?thesis
    proof (cases es1)
      case Nil
      with Cons.prems Some a have "k' = k" "c' = c" "js_entries xs = es2"
        by simp_all
      moreover have "m\<lparr>clients := replicate i None @ Some (k, c) # xs\<rparr> = m"
        using Cons.prems Some a calculation by (simp add: clients_same)
      ultimately have "run h (stopAll_loop i m) (replicate (length es1) Resolve_void) =
           (Awaiting (StopAll_Handshake (Suc i) k),
            m\<lparr>clients := replicate i None @ Some (k, c) # xs,
              calls := calls m @ stop_calls es1 @ [Stop c]\<rparr>)
         \<and> js_entries xs = es2"
        using Nil nxt by (simp add: stopAll_loop_def emit_def stop_calls_def)
      then show ?thesis by blast
    next
      case (Cons b es1')
      with Cons.prems Some a have b: "b = (k', c')" and e: "js_entries xs = es1' @ (k, c) # es2"
        by simp_all
      let ?m' = "(emit (Stop c') m)\<lparr>clients := js_delete k' (clients m)\<rparr>"
      have c': "clients ?m' = replicate (Suc i) None @ xs"
        using Cons.prems Some a by (simp add: js_delete_tombs del: replicate_Suc)
      have step: "run h (stopAll_loop i m) (replicate (length es1) Resolve_void) =
            run h (stopAll_loop (Suc i) ?m') (replicate (length es1') Resolve_void)"
        using Cons by (simp add: stopAll_loop_def nxt after_stop_in_stopAll_def)
      from Cons.IH [OF c' e] obtain j xs' where
        "run h (stopAll_loop (Suc i) ?m') (replicate (length es1') Resolve_void) =
           (Awaiting (StopAll_Handshake (Suc j) k),
            ?m'\<lparr>clients := replicate j None @ Some (k, c) # xs',
              calls := calls ?m' @ stop_calls es1' @ [Stop c]\<rparr>)"
        and "js_entries xs' = es2"
        by blast
      with step Cons b have "run h (stopAll_loop i m) (replicate (length es1) Resolve_void) =
           (Awaiting (StopAll_Handshake (Suc j) k),
            m\<lparr>clients := replicate j None @ Some (k, c) # xs',
              calls := calls m @ stop_calls es1 @ [Stop c]\<rparr>)
         \<and> js_entries xs' = es2"
        by (simp add: emit_def stop_calls_def)
      then show ?thesis by blast
    qed
  qed
qed

lemma stopAll_aborts:
  assumes "js_entries (clients m) = es1 @ (k, c) # es2"
  shows "\<exists>m'. run h (stopAll m) (replicate (length es1) Resolve_void @ [Reject e]) = (Threw e, m')
           \<and> js_entries (clients m') = (k, c) # es2
           \<and> diagnosticCaches m' = diagnosticCaches m
           \<and> watchers m' = watchers m
           \<and> store m' = store m
           \<and> pendingStarts m' = pendingStarts m
           \<and> calls m' = calls m @ [Log ''Stopping all language servers...'']
                          @ stop_calls es1 @ [Stop c]"
proof -
  let ?m0 = "emit (Log ''Stopping all language servers...'') m"
  have "clients ?m0 = replicate 0 None @ clients m" by simp
  from stopAll_loop_run_upto [OF this assms, of h] obtain j xs' where
    r: "run h (stopAll_loop 0 ?m0) (replicate (length es1) Resolve_void) =
           (Awaiting (StopAll_Handshake (Suc j) k),
            ?m0\<lparr>clients := replicate j None @ Some (k, c) # xs',
              calls := calls ?m0 @ stop_calls es1 @ [Stop c]\<rparr>)"
    and x: "js_entries xs' = es2"
    by blast
  have "run h (stopAll m) (replicate (length es1) Resolve_void @ [Reject e]) =
        run h (run h (stopAll_loop 0 ?m0) (replicate (length es1) Resolve_void)) [Reject e]"
    by (simp add: stopAll_def run_append)
  also have "\<dots> = (Threw e,
            ?m0\<lparr>clients := replicate j None @ Some (k, c) # xs',
              calls := calls ?m0 @ stop_calls es1 @ [Stop c]\<rparr>)"
    unfolding r by (simp add: after_stop_in_stopAll_def)
  finally show ?thesis
    using x by simp
qed

lemma stop_each_eq:
  "stop_each (js_entries (clients m)) m =
     m\<lparr>clients := replicate (length (clients m)) None,
       calls := calls m @ stop_calls (js_entries (clients m))\<rparr>"
  using stop_each_tombs [of m 0 "clients m"] by simp

lemma stopAll_run:
  "run h (stopAll m) (replicate (size_clients m) Resolve_void) =
     (Returned,
      m\<lparr>clients := replicate (length (clients m)) None,
        diagnosticCaches := js_clear (diagnosticCaches m),
        watchers := replicate (length (watchers m)) None,
        calls := calls m @ [Log ''Stopping all language servers...'']
                   @ stop_calls (js_entries (clients m))
                   @ dispose_calls (js_entries (watchers m))\<rparr>)"
proof -
  let ?m0 = "emit (Log ''Stopping all language servers...'') m"
  have "clients ?m0 = replicate 0 None @ clients m" by simp
  from stopAll_loop_run [OF this, of h] show ?thesis
    by (simp add: stopAll_def size_clients_def js_size_def cleanupAllWatchers_eq emit_def)
qed

lemma stopAll_snapshotted_eq:
  "stopAll_snapshotted m =
      m\<lparr>clients := replicate (length (clients m)) None,
        diagnosticCaches := js_clear (diagnosticCaches m),
        watchers := replicate (length (watchers m)) None,
        calls := calls m @ [Log ''Stopping all language servers...'']
                   @ stop_calls (js_entries (clients m))
                   @ dispose_calls (js_entries (watchers m))\<rparr>"
  using stop_each_eq [of "emit (Log ''Stopping all language servers...'') m"]
  by (simp add: stopAll_snapshotted_def Let_def cleanupAllWatchers_eq emit_def)

text \<open>
  C7. \<open>stopAll\<close> running alone, every stop handshake succeeding. It returns after as
  many handshakes as the connection table had entries on entry, and the manager it
  leaves is the one that stopping a snapshot of the table would leave, although the
  loop walks the live table and deletes from it. The calls it has made are: the log
  line; \<open>stop\<close> once on the client of each entry the table had on entry, in the table's
  order; \<open>dispose\<close> on each handle of each registered watcher set, whether or not its
  key had a client. Afterwards the connection table, the registry of diagnostic caches
  and the watcher registry are empty.
\<close>

theorem stopAll_stops_every_client:
  "case run h (stopAll m) (replicate (size_clients m) Resolve_void) of
     (st, m') \<Rightarrow>
       st = Returned
       \<and> m' = stopAll_snapshotted m
       \<and> calls m' =
           calls m @ [Log ''Stopping all language servers...'']
             @ stop_calls (js_entries (clients m))
             @ dispose_calls (js_entries (watchers m))
       \<and> js_entries (clients m') = []
       \<and> size_clients m' = 0
       \<and> js_entries (diagnosticCaches m') = []
       \<and> js_entries (watchers m') = []
       \<and> pendingStarts m' = pendingStarts m"
  unfolding stopAll_run prod.case
  by (simp add: stopAll_snapshotted_eq size_clients_def js_size_def js_entries_clear)

lemma example_busy_entries:
  "js_entries (clients example_busy) =
     [(getFolderKey example_app, LanguageClient 1), (getFolderKey example_tool, LanguageClient 2)]"
  "js_entries (watchers example_busy) =
     [(''file:///workspace/old'', [Disposable 9]),
      (getFolderKey example_app, [Disposable 1, Disposable 2]),
      (getFolderKey example_tool, [Disposable 3])]"
  "calls example_busy = []" "size_clients example_busy = 2"
  by (simp_all add: example_busy_def new_ClientManager_def size_clients_def js_size_def)

theorem stopAll_stops_every_client_witness:
  "case run example_host (stopAll example_busy) [Resolve_void, Resolve_void] of
     (st, m') \<Rightarrow>
       st = Returned
       \<and> m' = stopAll_snapshotted example_busy
       \<and> calls m' =
           [Log ''Stopping all language servers...'',
            Stop (LanguageClient 1), Stop (LanguageClient 2),
            Dispose (Disposable 9), Dispose (Disposable 1), Dispose (Disposable 2),
            Dispose (Disposable 3)]
       \<and> size_clients m' = 0
       \<and> js_entries (diagnosticCaches m') = []
       \<and> js_entries (watchers m') = []"
proof -
  have n: "replicate 2 Resolve_void = [Resolve_void, Resolve_void]"
    by (simp add: numeral_2_eq_2)
  show ?thesis
    using stopAll_stops_every_client [where h = example_host and m = example_busy]
    by (simp add: n example_busy_entries stop_calls_def dispose_calls_def split: prod.splits)
qed

subsection \<open>A stop handshake that throws\<close>

text \<open>
  C6. A stop handshake that throws. In \<open>stopForFolder\<close>, running alone, the exception
  reaches the caller and the manager is as it was before the call, but for the log line
  and the call of \<open>stop\<close>: the key keeps its client, its cache and its watcher set. In
  \<open>stopAll\<close>, running alone, when the handshake of some entry throws after those of
  the entries before it have succeeded, the exception reaches the caller; the entries
  before it have been stopped and deleted; that entry and the ones after it are still
  in the connection table, and \<open>stop\<close> has not been called on the clients of the ones
  after it; the registry of diagnostic caches and the watcher registry are as before the
  call, and nothing has been disposed.
\<close>

theorem stop_failure_skips_cleanup:
  "(js_get (clients m) (getFolderKey folder) = Some client \<longrightarrow>
      run h (stopForFolder folder m) [Reject e] =
        (Threw e, m\<lparr>calls := calls m @ [Log (stopping_message folder), Stop client]\<rparr>))
   \<and> (js_entries (clients m2) = es1 @ (k, c) # es2 \<longrightarrow>
       (case run h (stopAll m2) (replicate (length es1) Resolve_void @ [Reject e]) of
          (st, m') \<Rightarrow>
            st = Threw e
            \<and> js_entries (clients m') = (k, c) # es2
            \<and> diagnosticCaches m' = diagnosticCaches m2
            \<and> watchers m' = watchers m2
            \<and> store m' = store m2
            \<and> calls m' =
                calls m2 @ [Log ''Stopping all language servers...'']
                  @ stop_calls es1 @ [Stop c]))"
proof (intro conjI impI)
  show "run h (stopForFolder folder m) [Reject e] =
        (Threw e, m\<lparr>calls := calls m @ [Log (stopping_message folder), Stop client]\<rparr>)"
    if "js_get (clients m) (getFolderKey folder) = Some client"
    using that by (simp add: stopForFolder_def after_stop_def emit_def)
  show "case run h (stopAll m2) (replicate (length es1) Resolve_void @ [Reject e]) of
          (st, m') \<Rightarrow>
            st = Threw e
            \<and> js_entries (clients m') = (k, c) # es2
            \<and> diagnosticCaches m' = diagnosticCaches m2
            \<and> watchers m' = watchers m2
            \<and> store m' = store m2
            \<and> calls m' =
                calls m2 @ [Log ''Stopping all language servers...'']
                  @ stop_calls es1 @ [Stop c]"
    if "js_entries (clients m2) = es1 @ (k, c) # es2"
    using stopAll_aborts [OF that, of h e] by auto
qed

theorem stop_failure_skips_cleanup_witness:
  "js_get (clients example_running) (getFolderKey example_app) = Some (LanguageClient 1)
   \<and> run example_host (stopForFolder example_app example_running) [Reject ''timeout''] =
       (Threw ''timeout'',
        example_running\<lparr>calls := [Log (stopping_message example_app), Stop (LanguageClient 1)]\<rparr>)
   \<and> js_entries (clients example_busy) =
       [(getFolderKey example_app, LanguageClient 1)]
         @ (getFolderKey example_tool, LanguageClient 2) # []
   \<and> (case run example_host (stopAll example_busy) [Resolve_void, Reject ''timeout''] of
        (st, m') \<Rightarrow>
          st = Threw ''timeout''
          \<and> js_entries (clients m') = [(getFolderKey example_tool, LanguageClient 2)]
          \<and> diagnosticCaches m' = diagnosticCaches example_busy
          \<and> watchers m' = watchers example_busy
          \<and> calls m' =
              [Log ''Stopping all language servers...'', Stop (LanguageClient 1),
               Stop (LanguageClient 2)])
   \<and> js_entries (clients example_busy) =
       [] @ (getFolderKey example_app, LanguageClient 1)
         # [(getFolderKey example_tool, LanguageClient 2)]
   \<and> (case run example_host (stopAll example_busy) [Reject ''timeout''] of
        (st, m') \<Rightarrow>
          st = Threw ''timeout''
          \<and> js_entries (clients m') =
              [(getFolderKey example_app, LanguageClient 1),
               (getFolderKey example_tool, LanguageClient 2)]
          \<and> calls m' = [Log ''Stopping all language servers...'', Stop (LanguageClient 1)])"
proof -
  have h1: "js_get (clients example_running) (getFolderKey example_app) = Some (LanguageClient 1)"
    by (simp add: example_running_def)
  have h2: "js_entries (clients example_busy) =
       [(getFolderKey example_app, LanguageClient 1)]
         @ (getFolderKey example_tool, LanguageClient 2) # []"
    by (simp add: example_busy_entries)
  have h3: "js_entries (clients example_busy) =
       [] @ (getFolderKey example_app, LanguageClient 1)
         # [(getFolderKey example_tool, LanguageClient 2)]"
    by (simp add: example_busy_entries)
  have v: "calls example_running = []"
    by (simp add: example_running_def new_ClientManager_def)
  note c1 = stop_failure_skips_cleanup
    [where m = example_running and folder = example_app and client = "LanguageClient 1"
       and h = example_host and e = "''timeout''", THEN conjunct1, THEN mp, OF h1]
  note c2 = stop_failure_skips_cleanup
    [where ?m2.0 = example_busy and h = example_host and e = "''timeout''",
     THEN conjunct2, THEN mp, OF h2]
  note c3 = stop_failure_skips_cleanup
    [where ?m2.0 = example_busy and h = example_host and e = "''timeout''",
     THEN conjunct2, THEN mp, OF h3]
  show ?thesis
    using h1 h2 h3 c1 c2 c3
    by (simp add: v example_busy_entries stop_calls_def split: prod.splits)
qed

section \<open>Announcing a document that has become visible\<close>

lemma notify_sends:
  assumes "supportedLanguage h (languageId document)"
    and "getWorkspaceFolder h (doc_uri document) = Some folder"
    and "js_get (clients m) (getFolderKey folder) = Some client"
    and "\<not> js_has (cached m (getFolderKey folder)) (doc_uri document)"
  shows "notifyDocumentOpenIfNeeded h document m =
           (Awaiting Notify_Send,
            emit (SendDidOpen client document) (snd (getDiagnosticCacheForFolder folder m)))"
  using assms
  by (auto simp: notifyDocumentOpenIfNeeded_def cached_def getDiagnosticCacheForFolder_def
        Let_def js_has_def js_empty_def split: option.splits)

lemma notify_cached:
  assumes "getWorkspaceFolder h (doc_uri document) = Some folder"
    and "js_has (cached m (getFolderKey folder)) (doc_uri document)"
  shows "notifyDocumentOpenIfNeeded h document m = (Returned, m)"
  using assms
  by (auto simp: notifyDocumentOpenIfNeeded_def cached_def getDiagnosticCacheForFolder_def
        Let_def js_has_def js_empty_def split: option.splits)

lemma getDiagnosticCacheForFolder_calls [simp]:
  "calls (snd (getDiagnosticCacheForFolder folder m)) = calls m"
  "clients (snd (getDiagnosticCacheForFolder folder m)) = clients m"
  "watchers (snd (getDiagnosticCacheForFolder folder m)) = watchers m"
  "pendingStarts (snd (getDiagnosticCacheForFolder folder m)) = pendingStarts m"
  by (simp_all add: getDiagnosticCacheForFolder_def Let_def split: option.splits)

text \<open>
  C9. \<open>notifyDocumentOpenIfNeeded\<close> for a document in a supported language whose
  workspace folder has a registered client, when the document's URI is not a key of
  the folder's diagnostic cache (in particular when the folder has no cache yet): it
  calls \<open>sendNotification\<close> once, on that client, for that document, and makes no other
  call, before or after the notification's promise is settled. In each other case (the
  language is not supported; the document has no workspace folder; the folder has no
  registered client; the URI is a key of the folder's cache) it returns at once, having
  made no call and changed nothing.
\<close>

theorem notifyDocumentOpenIfNeeded_sends_once:
  "(supportedLanguage h (languageId document)
      \<and> getWorkspaceFolder h (doc_uri document) = Some folder
      \<and> js_get (clients m) (getFolderKey folder) = Some client
      \<and> \<not> js_has (cached m (getFolderKey folder)) (doc_uri document) \<longrightarrow>
      (case notifyDocumentOpenIfNeeded h document m of
         (st, m') \<Rightarrow>
           st = Awaiting Notify_Send
           \<and> calls m' = calls m @ [SendDidOpen client document]
           \<and> filter is_SendDidOpen (calls m') =
               filter is_SendDidOpen (calls m) @ [SendDidOpen client document])
      \<and> (case run h (notifyDocumentOpenIfNeeded h document m) [r] of
           (st, m') \<Rightarrow>
             st = (case r of Reject error \<Rightarrow> Threw error | _ \<Rightarrow> Returned)
             \<and> calls m' = calls m @ [SendDidOpen client document]))
   \<and> (\<not> supportedLanguage h (languageId document2) \<longrightarrow>
        notifyDocumentOpenIfNeeded h document2 m2 = (Returned, m2))
   \<and> (getWorkspaceFolder h (doc_uri document3) = None \<longrightarrow>
        notifyDocumentOpenIfNeeded h document3 m3 = (Returned, m3))
   \<and> (getWorkspaceFolder h (doc_uri document4) = Some folder4
        \<and> js_get (clients m4) (getFolderKey folder4) = None \<longrightarrow>
        notifyDocumentOpenIfNeeded h document4 m4 = (Returned, m4))
   \<and> (getWorkspaceFolder h (doc_uri document5) = Some folder5
        \<and> js_has (cached m5 (getFolderKey folder5)) (doc_uri document5) \<longrightarrow>
        notifyDocumentOpenIfNeeded h document5 m5 = (Returned, m5))"
proof (intro conjI impI)
  assume a: "supportedLanguage h (languageId document)
      \<and> getWorkspaceFolder h (doc_uri document) = Some folder
      \<and> js_get (clients m) (getFolderKey folder) = Some client
      \<and> \<not> js_has (cached m (getFolderKey folder)) (doc_uri document)"
  then have eq: "notifyDocumentOpenIfNeeded h document m =
           (Awaiting Notify_Send,
            emit (SendDidOpen client document) (snd (getDiagnosticCacheForFolder folder m)))"
    using notify_sends [of h document folder m client] by simp
  show "case notifyDocumentOpenIfNeeded h document m of
         (st, m') \<Rightarrow>
           st = Awaiting Notify_Send
           \<and> calls m' = calls m @ [SendDidOpen client document]
           \<and> filter is_SendDidOpen (calls m') =
               filter is_SendDidOpen (calls m) @ [SendDidOpen client document]"
    unfolding eq by simp
  show "case run h (notifyDocumentOpenIfNeeded h document m) [r] of
           (st, m') \<Rightarrow>
             st = (case r of Reject error \<Rightarrow> Threw error | _ \<Rightarrow> Returned)
             \<and> calls m' = calls m @ [SendDidOpen client document]"
    unfolding eq by (cases r) (simp_all add: after_notify_def)
next
  show "notifyDocumentOpenIfNeeded h document2 m2 = (Returned, m2)"
    if "\<not> supportedLanguage h (languageId document2)"
    using that by (simp add: notifyDocumentOpenIfNeeded_def)
  show "notifyDocumentOpenIfNeeded h document3 m3 = (Returned, m3)"
    if "getWorkspaceFolder h (doc_uri document3) = None"
    using that by (simp add: notifyDocumentOpenIfNeeded_def)
  show "notifyDocumentOpenIfNeeded h document4 m4 = (Returned, m4)"
    if "getWorkspaceFolder h (doc_uri document4) = Some folder4
        \<and> js_get (clients m4) (getFolderKey folder4) = None"
    using that by (simp add: notifyDocumentOpenIfNeeded_def)
  show "notifyDocumentOpenIfNeeded h document5 m5 = (Returned, m5)"
    if "getWorkspaceFolder h (doc_uri document5) = Some folder5
        \<and> js_has (cached m5 (getFolderKey folder5)) (doc_uri document5)"
    using that notify_cached [of h document5 folder5 m5] by simp
qed

lemmas example_documents =
  example_b_rb_def example_a_rb_def example_readme_def example_stray_def example_main_rb_def

theorem notifyDocumentOpenIfNeeded_sends_once_witness:
  "supportedLanguage example_host (languageId example_b_rb)
   \<and> getWorkspaceFolder example_host (doc_uri example_b_rb) = Some example_app
   \<and> js_get (clients example_running) (getFolderKey example_app) = Some (LanguageClient 1)
   \<and> \<not> js_has (cached example_running (getFolderKey example_app)) (doc_uri example_b_rb)
   \<and> (case notifyDocumentOpenIfNeeded example_host example_b_rb example_running of
        (st, m') \<Rightarrow>
          st = Awaiting Notify_Send
          \<and> calls m' = [SendDidOpen (LanguageClient 1) example_b_rb])
   \<and> (case run example_host
               (notifyDocumentOpenIfNeeded example_host example_b_rb example_running)
               [Resolve_void] of
        (st, m') \<Rightarrow> st = Returned \<and> calls m' = [SendDidOpen (LanguageClient 1) example_b_rb])
   \<and> \<not> supportedLanguage example_host (languageId example_readme)
   \<and> notifyDocumentOpenIfNeeded example_host example_readme example_running =
       (Returned, example_running)
   \<and> getWorkspaceFolder example_host (doc_uri example_stray) = None
   \<and> notifyDocumentOpenIfNeeded example_host example_stray example_running =
       (Returned, example_running)
   \<and> getWorkspaceFolder example_host (doc_uri example_main_rb) = Some example_tool
   \<and> js_get (clients example_running) (getFolderKey example_tool) = None
   \<and> notifyDocumentOpenIfNeeded example_host example_main_rb example_running =
       (Returned, example_running)
   \<and> getWorkspaceFolder example_host (doc_uri example_a_rb) = Some example_app
   \<and> js_has (cached example_running (getFolderKey example_app)) (doc_uri example_a_rb)
   \<and> notifyDocumentOpenIfNeeded example_host example_a_rb example_running =
       (Returned, example_running)"
proof -
  have h1: "supportedLanguage example_host (languageId example_b_rb)
      \<and> getWorkspaceFolder example_host (doc_uri example_b_rb) = Some example_app
      \<and> js_get (clients example_running) (getFolderKey example_app) = Some (LanguageClient 1)
      \<and> \<not> js_has (cached example_running (getFolderKey example_app)) (doc_uri example_b_rb)"
    by (simp add: example_host_def example_documents example_running_def cached_def
          js_has_def example_keys)
  have h2: "\<not> supportedLanguage example_host (languageId example_readme)"
    by (simp add: example_host_def example_documents)
  have h3: "getWorkspaceFolder example_host (doc_uri example_stray) = None"
    by (simp add: example_host_def example_documents)
  have h4: "getWorkspaceFolder example_host (doc_uri example_main_rb) = Some example_tool
        \<and> js_get (clients example_running) (getFolderKey example_tool) = None"
    by (simp add: example_host_def example_documents example_running_def example_keys)
  have h5: "getWorkspaceFolder example_host (doc_uri example_a_rb) = Some example_app
        \<and> js_has (cached example_running (getFolderKey example_app)) (doc_uri example_a_rb)"
    by (simp add: example_host_def example_documents example_running_def cached_def
          js_has_def example_keys)
  note th = notifyDocumentOpenIfNeeded_sends_once
    [where h = example_host and document = example_b_rb and folder = example_app
       and m = example_running and client = "LanguageClient 1" and r = Resolve_void
       and ?document2.0 = example_readme and ?m2.0 = example_running
       and ?document3.0 = example_stray and ?m3.0 = example_running
       and ?document4.0 = example_main_rb and ?folder4.0 = example_tool
       and ?m4.0 = example_running
       and ?document5.0 = example_a_rb and ?folder5.0 = example_app
       and ?m5.0 = example_running]
  note c1 = th [THEN conjunct1, THEN mp, OF h1]
  note c2 = th [THEN conjunct2, THEN conjunct1, THEN mp, OF h2]
  note c3 = th [THEN conjunct2, THEN conjunct2, THEN conjunct1, THEN mp, OF h3]
  note c4 = th [THEN conjunct2, THEN conjunct2, THEN conjunct2, THEN conjunct1, THEN mp, OF h4]
  note c5 = th [THEN conjunct2, THEN conjunct2, THEN conjunct2, THEN conjunct2, THEN mp, OF h5]
  have v: "calls example_running = []"
    by (simp add: example_running_def new_ClientManager_def)
  show ?thesis
    using h1 h2 h3 h4 h5 c1 c2 c3 c4 c5
    by (simp add: v split: prod.splits)
qed

section \<open>The watcher sets\<close>

lemma registered_after_registerWatchers:
  "registered_watchers (registerWatchers folder ws m) k =
     (if k = getFolderKey folder then ws else registered_watchers m k)"
  by (simp add: registered_watchers_def registerWatchers_def js_get_set)

text \<open>
  C8, as the claim states it, fails in two ways. First, a folder has a running client
  and a registered watcher set of two handles; \<open>registerWatchers\<close> is called for it
  again with one new handle; then the folder is stopped, and then \<open>stopAll\<close> runs.
  The new handle is disposed when the connection is removed. The two handles registered
  first are never disposed, and after the second registration the manager no longer
  holds them. Second, \<open>stopAll\<close> runs with two folders running, each with a watcher
  set. When the first folder's stop handshake has succeeded, its connection has been
  removed, but its watcher set is still registered and no handle has been disposed; when
  the second folder's stop handshake then throws, \<open>stopAll\<close> ends there, and the first
  folder's watcher set stays registered and undisposed although its connection is gone.
\<close>

theorem watcher_sets_left_undisposed:
  "registered_watchers example_running (getFolderKey example_app) = [Disposable 1, Disposable 2]
   \<and> registered_watchers example_reregistered (getFolderKey example_app) = [Disposable 7]
   \<and> calls example_reregistered = []
   \<and> fst (run example_host (stopForFolder example_app example_reregistered) [Resolve_void]) =
       Returned
   \<and> js_get (clients example_after_stop) (getFolderKey example_app) = None
   \<and> js_entries (watchers example_after_stop) = []
   \<and> calls example_after_stop =
       [Log (stopping_message example_app), Stop (LanguageClient 1), Dispose (Disposable 7)]
   \<and> fst (run example_host (stopAll example_after_stop) []) = Returned
   \<and> calls example_after_stopAll =
       [Log (stopping_message example_app), Stop (LanguageClient 1), Dispose (Disposable 7),
        Log ''Stopping all language servers...'']
   \<and> Dispose (Disposable 1) \<notin> set (calls example_after_stopAll)
   \<and> Dispose (Disposable 2) \<notin> set (calls example_after_stopAll)
   \<and> js_get (clients example_busy) (getFolderKey example_app) = Some (LanguageClient 1)
   \<and> registered_watchers example_busy (getFolderKey example_app) = [Disposable 1, Disposable 2]
   \<and> fst example_stopAll_midway = Awaiting (StopAll_Handshake 3 (getFolderKey example_tool))
   \<and> js_get (clients (snd example_stopAll_midway)) (getFolderKey example_app) = None
   \<and> registered_watchers (snd example_stopAll_midway) (getFolderKey example_app) =
       [Disposable 1, Disposable 2]
   \<and> calls (snd example_stopAll_midway) =
       [Log ''Stopping all language servers...'', Stop (LanguageClient 1),
        Stop (LanguageClient 2)]
   \<and> fst example_stopAll_aborted = Threw ''timeout''
   \<and> js_get (clients (snd example_stopAll_aborted)) (getFolderKey example_app) = None
   \<and> registered_watchers (snd example_stopAll_aborted) (getFolderKey example_app) =
       [Disposable 1, Disposable 2]
   \<and> calls (snd example_stopAll_aborted) =
       [Log ''Stopping all language servers...'', Stop (LanguageClient 1),
        Stop (LanguageClient 2)]"
  by (simp add: example_after_stopAll_def example_after_stop_def example_reregistered_def
        example_stopAll_midway_def example_stopAll_aborted_def example_busy_def
        registered_watchers_def registerWatchers_def example_running_def
        new_ClientManager_def js_empty_def stopForFolder_def after_stop_def Let_def emit_def
        cleanupWatchers_def stopAll_def stopAll_loop_def after_stop_in_stopAll_def js_next_def
        js_clear_def cleanupAllWatchers_def cleanupAllWatchers_from.simps example_keys)

text \<open>
  C8, amended. \<open>registerWatchers\<close> stores the given handles as the key's watcher set in
  place of whatever set was stored, and disposes nothing; the sets of other keys are as
  before. The set stored for a key is disposed, handle by handle in order, and removed
  from the registry when the key's connection is removed: in the same step, the sets of
  other keys staying as they are, when \<open>stopForFolder\<close> removes the connection
  after a successful stop handshake and when the \<open>catch\<close> block of \<open>startForFolder\<close>
  cleans up after a rejected promise of a start attempt; and, together with every other
  stored set, once the last stop handshake of \<open>stopAll\<close> has succeeded. While
  \<open>stopAll\<close> is still walking the connection table, the connections it has stopped
  are removed already, and the watcher registry is as it was, nothing disposed. So of
  two sets registered for a key one after the other, the removal of the connection
  disposes the second and not the first.
\<close>

theorem watchers_disposed_on_removal:
  "calls (registerWatchers folder ws m) = calls m
   \<and> registered_watchers (registerWatchers folder ws m) (getFolderKey folder) = ws
   \<and> (\<forall>k. k \<noteq> getFolderKey folder \<longrightarrow>
         registered_watchers (registerWatchers folder ws m) k = registered_watchers m k)
   \<and> (js_get (clients m) (getFolderKey folder) = Some client \<and> wf_manager m \<longrightarrow>
       (case run h (stopForFolder folder m) [Resolve_void] of
          (st, m') \<Rightarrow>
            st = Returned
            \<and> js_get (clients m') (getFolderKey folder) = None
            \<and> calls m' =
                calls m @ [Log (stopping_message folder), Stop client]
                  @ map Dispose (registered_watchers m (getFolderKey folder))
            \<and> js_entries (watchers m') =
                filter (\<lambda>w. fst w \<noteq> getFolderKey folder) (js_entries (watchers m)))
       \<and> (case run h (stopForFolder folder
                        (registerWatchers folder ws' (registerWatchers folder ws m)))
                 [Resolve_void] of
            (st, m') \<Rightarrow>
              st = Returned
              \<and> calls m' =
                  calls m @ [Log (stopping_message folder), Stop client] @ map Dispose ws'))
   \<and> (p \<in> {Start_Enable folder, Start_Create folder, Start_Handshake folder client,
             Start_Sync folder client docs}
       \<and> wf_manager m \<longrightarrow>
       (case run h (resume h p (Reject e) m) [] of
          (st, m') \<Rightarrow>
            st = Awaiting (Start_OnError folder)
            \<and> js_get (clients m') (getFolderKey folder) = None
            \<and> calls m' =
                calls m @ map Dispose (registered_watchers m (getFolderKey folder))
                  @ [Log (failed_log_message folder e), OnError (failed_message folder) folder]
            \<and> js_entries (watchers m') =
                filter (\<lambda>w. fst w \<noteq> getFolderKey folder) (js_entries (watchers m))))
   \<and> (case run h (stopAll m) (replicate (size_clients m) Resolve_void) of
         (st, m') \<Rightarrow>
           st = Returned
           \<and> js_entries (clients m') = []
           \<and> js_entries (watchers m') = []
           \<and> calls m' =
               calls m @ [Log ''Stopping all language servers...'']
                 @ stop_calls (js_entries (clients m))
                 @ dispose_calls (js_entries (watchers m)))
   \<and> (js_entries (clients m) = es1 @ (k, c) # es2 \<longrightarrow>
        (case run h (stopAll m) (replicate (length es1) Resolve_void) of
           (st, m') \<Rightarrow>
             (\<exists>index. st = Awaiting (StopAll_Handshake index k))
             \<and> js_entries (clients m') = (k, c) # es2
             \<and> watchers m' = watchers m
             \<and> calls m' =
                 calls m @ [Log ''Stopping all language servers...'']
                   @ stop_calls es1 @ [Stop c]))"
proof (intro conjI impI allI)
  show "calls (registerWatchers folder ws m) = calls m"
    by (simp add: registerWatchers_def)
  show "registered_watchers (registerWatchers folder ws m) (getFolderKey folder) = ws"
    by (simp add: registered_after_registerWatchers)
  show "registered_watchers (registerWatchers folder ws m) k = registered_watchers m k"
    if "k \<noteq> getFolderKey folder" for k
    using that by (simp add: registered_after_registerWatchers)
  show "case run h (stopAll m) (replicate (size_clients m) Resolve_void) of
         (st, m') \<Rightarrow>
           st = Returned
           \<and> js_entries (clients m') = []
           \<and> js_entries (watchers m') = []
           \<and> calls m' =
               calls m @ [Log ''Stopping all language servers...'']
                 @ stop_calls (js_entries (clients m))
                 @ dispose_calls (js_entries (watchers m))"
    unfolding stopAll_run prod.case by simp
next
  assume a: "js_get (clients m) (getFolderKey folder) = Some client \<and> wf_manager m"
  then have reg: "js_get (clients m) (getFolderKey folder) = Some client"
    and wf: "js_wf (clients m)" "js_wf (watchers m)"
    by (simp_all add: wf_manager_def)
  show "case run h (stopForFolder folder m) [Resolve_void] of
          (st, m') \<Rightarrow>
            st = Returned
            \<and> js_get (clients m') (getFolderKey folder) = None
            \<and> calls m' =
                calls m @ [Log (stopping_message folder), Stop client]
                  @ map Dispose (registered_watchers m (getFolderKey folder))
            \<and> js_entries (watchers m') =
                filter (\<lambda>w. fst w \<noteq> getFolderKey folder) (js_entries (watchers m))"
    unfolding stopped_eq [OF reg] using wf
    by (simp add: js_get_delete_same js_entries_delete)
  let ?m2 = "registerWatchers folder ws' (registerWatchers folder ws m)"
  have reg2: "js_get (clients ?m2) (getFolderKey folder) = Some client"
    using reg by (simp add: registerWatchers_def)
  show "case run h (stopForFolder folder ?m2) [Resolve_void] of
            (st, m') \<Rightarrow>
              st = Returned
              \<and> calls m' =
                  calls m @ [Log (stopping_message folder), Stop client] @ map Dispose ws'"
    unfolding stopped_eq [OF reg2]
    by (simp add: registered_after_registerWatchers) (simp add: registerWatchers_def)
next
  assume a: "p \<in> {Start_Enable folder, Start_Create folder, Start_Handshake folder client,
             Start_Sync folder client docs} \<and> wf_manager m"
  then have wf: "js_wf (clients m)" "js_wf (watchers m)"
    by (simp_all add: wf_manager_def)
  from a have "run h (resume h p (Reject e) m) [] = run h (startForFolder_catch folder e m) []"
    using run_Reject [of p folder client docs h e m "[]"] by simp
  then show "case run h (resume h p (Reject e) m) [] of
          (st, m') \<Rightarrow>
            st = Awaiting (Start_OnError folder)
            \<and> js_get (clients m') (getFolderKey folder) = None
            \<and> calls m' =
                calls m @ map Dispose (registered_watchers m (getFolderKey folder))
                  @ [Log (failed_log_message folder e), OnError (failed_message folder) folder]
            \<and> js_entries (watchers m') =
                filter (\<lambda>w. fst w \<noteq> getFolderKey folder) (js_entries (watchers m))"
    using wf by (simp add: startForFolder_catch_eq js_get_delete_same js_entries_delete)
next
  assume e: "js_entries (clients m) = es1 @ (k, c) # es2"
  let ?m0 = "emit (Log ''Stopping all language servers...'') m"
  have "clients ?m0 = replicate 0 None @ clients m" by simp
  from stopAll_loop_run_upto [OF this e, of h] obtain j xs' where
    r: "run h (stopAll_loop 0 ?m0) (replicate (length es1) Resolve_void) =
           (Awaiting (StopAll_Handshake (Suc j) k),
            ?m0\<lparr>clients := replicate j None @ Some (k, c) # xs',
              calls := calls ?m0 @ stop_calls es1 @ [Stop c]\<rparr>)"
    and x: "js_entries xs' = es2"
    by blast
  show "case run h (stopAll m) (replicate (length es1) Resolve_void) of
           (st, m') \<Rightarrow>
             (\<exists>index. st = Awaiting (StopAll_Handshake index k))
             \<and> js_entries (clients m') = (k, c) # es2
             \<and> watchers m' = watchers m
             \<and> calls m' =
                 calls m @ [Log ''Stopping all language servers...'']
                   @ stop_calls es1 @ [Stop c]"
    unfolding stopAll_def r using x by simp
qed

theorem watchers_disposed_on_removal_witness:
  "registered_watchers (registerWatchers example_app [Disposable 5] example_running)
      (getFolderKey example_app) = [Disposable 5]
   \<and> calls (registerWatchers example_app [Disposable 5] example_running) = []
   \<and> getFolderKey example_tool \<noteq> getFolderKey example_app
   \<and> registered_watchers (registerWatchers example_app [Disposable 5] example_busy)
        (getFolderKey example_tool) = [Disposable 3]
   \<and> js_get (clients example_running) (getFolderKey example_app) = Some (LanguageClient 1)
   \<and> wf_manager example_running
   \<and> (case run example_host (stopForFolder example_app example_running) [Resolve_void] of
        (st, m') \<Rightarrow>
          st = Returned
          \<and> js_get (clients m') (getFolderKey example_app) = None
          \<and> calls m' =
              [Log (stopping_message example_app), Stop (LanguageClient 1),
               Dispose (Disposable 1), Dispose (Disposable 2)]
          \<and> js_entries (watchers m') = [])
   \<and> (case run example_host
               (stopForFolder example_app
                  (registerWatchers example_app [Disposable 7]
                     (registerWatchers example_app [Disposable 5] example_running)))
               [Resolve_void] of
        (st, m') \<Rightarrow>
          st = Returned
          \<and> calls m' =
              [Log (stopping_message example_app), Stop (LanguageClient 1),
               Dispose (Disposable 7)])
   \<and> Start_Sync example_app (LanguageClient 1) [] \<in>
       {Start_Enable example_app, Start_Create example_app,
        Start_Handshake example_app (LanguageClient 1),
        Start_Sync example_app (LanguageClient 1) []}
   \<and> (case run example_host
               (resume example_host (Start_Sync example_app (LanguageClient 1) [])
                  (Reject ''write EPIPE'') example_running) [] of
        (st, m') \<Rightarrow>
          st = Awaiting (Start_OnError example_app)
          \<and> js_get (clients m') (getFolderKey example_app) = None
          \<and> calls m' =
              [Dispose (Disposable 1), Dispose (Disposable 2),
               Log (failed_log_message example_app ''write EPIPE''),
               OnError (failed_message example_app) example_app]
          \<and> js_entries (watchers m') = [])
   \<and> (case run example_host (stopAll example_busy) [Resolve_void, Resolve_void] of
        (st, m') \<Rightarrow>
          st = Returned
          \<and> js_entries (clients m') = []
          \<and> js_entries (watchers m') = []
          \<and> calls m' =
              [Log ''Stopping all language servers...'',
               Stop (LanguageClient 1), Stop (LanguageClient 2),
               Dispose (Disposable 9), Dispose (Disposable 1), Dispose (Disposable 2),
               Dispose (Disposable 3)])
   \<and> js_entries (clients example_busy) =
       [(getFolderKey example_app, LanguageClient 1)]
         @ (getFolderKey example_tool, LanguageClient 2) # []
   \<and> (case run example_host (stopAll example_busy) [Resolve_void] of
        (st, m') \<Rightarrow>
          (\<exists>index. st = Awaiting (StopAll_Handshake index (getFolderKey example_tool)))
          \<and> js_entries (clients m') = [(getFolderKey example_tool, LanguageClient 2)]
          \<and> watchers m' = watchers example_busy
          \<and> calls m' =
              [Log ''Stopping all language servers...'', Stop (LanguageClient 1),
               Stop (LanguageClient 2)])"
proof -
  let ?p = "Start_Sync example_app (LanguageClient 1) []"
  have h0: "getFolderKey example_tool \<noteq> getFolderKey example_app"
    by (simp add: example_keys)
  have h1: "js_get (clients example_running) (getFolderKey example_app) = Some (LanguageClient 1)
            \<and> wf_manager example_running"
    by (simp add: example_running_wf) (simp add: example_running_def)
  have h2: "?p \<in> {Start_Enable example_app, Start_Create example_app,
                  Start_Handshake example_app (LanguageClient 1), ?p}
            \<and> wf_manager example_running"
    by (simp add: example_running_wf)
  have h3: "js_entries (clients example_busy) =
       [(getFolderKey example_app, LanguageClient 1)]
         @ (getFolderKey example_tool, LanguageClient 2) # []"
    by (simp add: example_busy_entries)
  note th = watchers_disposed_on_removal
    [where folder = example_app and ws = "[Disposable 5]" and ws' = "[Disposable 7]"
       and m = example_running and client = "LanguageClient 1" and h = example_host
       and p = ?p and docs = "[]" and e = "''write EPIPE''"]
  note tb = watchers_disposed_on_removal
    [where folder = example_app and ws = "[Disposable 5]" and m = example_busy
       and h = example_host and ?es1.0 = "[(getFolderKey example_app, LanguageClient 1)]"
       and k = "getFolderKey example_tool" and c = "LanguageClient 2" and ?es2.0 = "[]"]
  note c1 = th [THEN conjunct1]
  note c2 = th [THEN conjunct2, THEN conjunct1]
  note c3 = tb [THEN conjunct2, THEN conjunct2, THEN conjunct1, THEN spec, THEN mp, OF h0]
  note c4 = th [THEN conjunct2, THEN conjunct2, THEN conjunct2, THEN conjunct1, THEN mp, OF h1]
  note c5 = th [THEN conjunct2, THEN conjunct2, THEN conjunct2, THEN conjunct2, THEN conjunct1,
                THEN mp, OF h2]
  note c6 = tb [THEN conjunct2, THEN conjunct2, THEN conjunct2, THEN conjunct2, THEN conjunct2,
                THEN conjunct1]
  note c7 = tb [THEN conjunct2, THEN conjunct2, THEN conjunct2, THEN conjunct2, THEN conjunct2,
                THEN conjunct2, THEN mp, OF h3]
  have v: "calls example_running = []"
    "registered_watchers example_running (getFolderKey example_app) =
       [Disposable 1, Disposable 2]"
    "js_entries (watchers example_running) =
       [(getFolderKey example_app, [Disposable 1, Disposable 2])]"
    "registered_watchers example_busy (getFolderKey example_tool) = [Disposable 3]"
    by (simp_all add: example_running_def example_busy_def new_ClientManager_def
          registered_watchers_def example_keys)
  have n: "replicate 2 Resolve_void = [Resolve_void, Resolve_void]"
    by (simp add: numeral_2_eq_2)
  show ?thesis
    using h0 h1 h2 h3 c1 c2 c3 c4 c5 c6 c7
    by (simp add: v n example_busy_entries stop_calls_def dispose_calls_def split: prod.splits)
qed

end
